theory Spec2Isabelle
  imports Main
begin

section \<open>Exception landing pads of the IR generator (ir/irlandingpad.cpp)\<close>

text \<open>
  The development embeds \<^verbatim>\<open>IRLandingPadInfo\<close> and \<^verbatim>\<open>IRLandingPad\<close> of
  \<^verbatim>\<open>ir/irlandingpad.cpp\<close>. Pointers to front-end objects (statements, class
  declarations, basic blocks) are identifiers; a null pointer is \<open>None\<close>. The mutable
  generator state reached through \<^verbatim>\<open>gIR\<close> is passed explicitly. An \<^verbatim>\<open>assert\<close>
  that fails and an operation whose behaviour C++ leaves undefined are results of their own.
\<close>

subsection \<open>Front-end objects and IR values\<close>

type_synonym block = nat
type_synonym stmt = nat
type_synonym classdecl = nat

text \<open>A front-end type: a class type, or anything else.\<close>

datatype dtype = TClass classdecl | TOther nat

datatype lltype = LVoid | LInt nat | LStruct classdecl | LClassInfo | LFunction | LOther nat
  | LPtr lltype

text \<open>
  An \<^verbatim>\<open>LLValue*\<close>. \<open>VInst n t\<close> is the result of the instruction numbered \<open>n\<close>
  (a call, a load or an alloca) and has type \<open>t\<close>; two such values are the same pointer
  exactly when they are equal. Casts and comparisons have no effect of their own and are
  kept as value expressions.
\<close>

datatype llvalue =
    VInst nat lltype
  | VCast llvalue lltype
  | VClassInfo classdecl
  | VFunction string
  | VConstUint nat
  | VICmpEQ llvalue llvalue

datatype callee = eh_exception | eh_selector | eh_typeid_for | RuntimeFn string

text \<open>
  \<open>IStmt b\<close> stands for the code of a statement \<open>b\<close> lowered as one straight-line
  region; only \<open>toIR_inline\<close> below emits it.
\<close>

datatype instr =
    ICall nat callee "llvalue list"
  | ILoad nat llvalue
  | IStore llvalue llvalue
  | IStmt stmt
  | IBr block
  | ICondBr llvalue block block
  | IUnreachable

datatype error = AssertionFailed string | Undefined string

record VarDeclaration =
  vid :: nat
  vtype :: dtype
  nestedrefs_dim :: nat

record Catch =
  var :: "VarDeclaration option"
  handler :: "stmt option"
  ctype :: "dtype option"

text \<open>
  \<^verbatim>\<open>struct IRLandingPadInfo\<close>: the three pointer fields the source reads. A finally
  entry has \<open>finallyBody\<close> set; every other entry is treated as a catch.
\<close>

record IRLandingPadInfo =
  target :: "block option"
  finallyBody :: "stmt option"
  catchType :: "classdecl option"

text \<open>
  The generator state: the five members of \<^verbatim>\<open>IRLandingPad\<close> (\<open>infos\<close>,
  \<open>unpushed_infos\<close>, \<open>nInfos\<close>, \<open>padBBs\<close>, \<open>catch_var\<close>; a stack is a list with its
  top at the head), and what the landing-pad code reaches through \<^verbatim>\<open>gIR\<close>: the
  current scope, the instructions emitted so far (each with the block it was appended to),
  the allocas of the function, the counters of fresh blocks and values, the storage of
  local variables (\<^verbatim>\<open>var->ir.irLocal\<close>) and the classes whose IR struct is resolved
  (\<^verbatim>\<open>cd->ir.irStruct\<close>).
\<close>

record IRState =
  infos :: "IRLandingPadInfo list"
  unpushed_infos :: "IRLandingPadInfo list"
  nInfos :: "nat list"
  padBBs :: "block list"
  catch_var :: "llvalue option"
  scopebb :: block
  scopeend :: block
  code :: "(block \<times> instr) list"
  allocas :: "(nat \<times> lltype \<times> string) list"
  nextbb :: nat
  nextval :: nat
  irLocal :: "nat \<Rightarrow> llvalue option"
  irStruct :: "classdecl set"

text \<open>The lowering of a statement, \<^verbatim>\<open>Statement::toIR\<close>, is a parameter.\<close>

type_synonym lowering = "stmt \<Rightarrow> IRState \<Rightarrow> IRState"

definition bind_err :: "error + 'a \<Rightarrow> ('a \<Rightarrow> error + 'b) \<Rightarrow> error + 'b" where
  "bind_err m f = (case m of Inl e \<Rightarrow> Inl e | Inr x \<Rightarrow> f x)"

subsection \<open>The IR builder operations used by the landing-pad code\<close>

text \<open>
  Modelled from the spec: the IR builder facade (type lowering, casts, block creation,
  calls, loads, stores, allocas) is external to \<^verbatim>\<open>ir/irlandingpad.cpp\<close>. Each
  operation is modelled by the instruction it appends to the current block and the value
  it returns; a new block or value takes the next free number.
\<close>

definition ClassDeclaration_object :: classdecl where
  "ClassDeclaration_object = 0"

fun typeOf :: "llvalue \<Rightarrow> lltype" where
  "typeOf (VInst n t) = t"
| "typeOf (VCast v t) = t"
| "typeOf (VClassInfo c) = LPtr LClassInfo"
| "typeOf (VFunction f) = LPtr LFunction"
| "typeOf (VConstUint n) = LInt 32"
| "typeOf (VICmpEQ a b) = LInt 1"

fun DtoType :: "dtype \<Rightarrow> lltype" where
  "DtoType (TClass c) = LPtr (LStruct c)"
| "DtoType (TOther n) = LOther n"

definition getPtrToType :: "lltype \<Rightarrow> lltype" where
  "getPtrToType t = LPtr t"

fun isClassHandle :: "dtype \<Rightarrow> classdecl option" where
  "isClassHandle (TClass c) = Some c"
| "isClassHandle (TOther n) = None"

text \<open>A cast to the type the value already has returns the value itself.\<close>

definition CreateBitCast :: "llvalue \<Rightarrow> lltype \<Rightarrow> llvalue" where
  "CreateBitCast v t = (if typeOf v = t then v else VCast v t)"

definition emit :: "instr \<Rightarrow> IRState \<Rightarrow> IRState" where
  "emit i s = s\<lparr>code := code s @ [(scopebb s, i)]\<rparr>"

definition BasicBlock_Create :: "IRState \<Rightarrow> block \<times> IRState" where
  "BasicBlock_Create s = (nextbb s, s\<lparr>nextbb := Suc (nextbb s)\<rparr>)"

definition CreateCall :: "callee \<Rightarrow> llvalue list \<Rightarrow> lltype \<Rightarrow> IRState \<Rightarrow> llvalue \<times> IRState" where
  "CreateCall f args t s =
     (VInst (nextval s) t, emit (ICall (nextval s) f args) (s\<lparr>nextval := Suc (nextval s)\<rparr>))"

fun pointee :: "lltype \<Rightarrow> lltype" where
  "pointee (LPtr t) = t"
| "pointee t = t"

definition DtoLoad :: "llvalue \<Rightarrow> IRState \<Rightarrow> llvalue \<times> IRState" where
  "DtoLoad p s =
     (VInst (nextval s) (pointee (typeOf p)), emit (ILoad (nextval s) p) (s\<lparr>nextval := Suc (nextval s)\<rparr>))"

definition DtoStore :: "llvalue \<Rightarrow> llvalue \<Rightarrow> IRState \<Rightarrow> IRState" where
  "DtoStore v p s = emit (IStore v p) s"

text \<open>An alloca goes to the entry of the function, not to the current block.\<close>

definition DtoAlloca :: "dtype \<Rightarrow> string \<Rightarrow> IRState \<Rightarrow> llvalue \<times> IRState" where
  "DtoAlloca t name s =
     (VInst (nextval s) (LPtr (DtoType t)),
      s\<lparr>allocas := allocas s @ [(nextval s, DtoType t, name)], nextval := Suc (nextval s)\<rparr>)"

fun isTerminator :: "instr \<Rightarrow> bool" where
  "isTerminator (IBr b) = True"
| "isTerminator (ICondBr c t e) = True"
| "isTerminator IUnreachable = True"
| "isTerminator i = False"

definition block_instrs :: "(block \<times> instr) list \<Rightarrow> block \<Rightarrow> instr list" where
  "block_instrs cd b = map snd (filter (\<lambda>x. fst x = b) cd)"

text \<open>
  Modelled from the spec: \<^verbatim>\<open>IRState::scopereturned\<close> is not among the given source files;
  the current block has returned when its last instruction is a terminator.
\<close>

definition scopereturned :: "IRState \<Rightarrow> bool" where
  "scopereturned s =
     (case rev (block_instrs (code s) (scopebb s)) of [] \<Rightarrow> False | i # _ \<Rightarrow> isTerminator i)"

text \<open>
  Modelled from the spec: \<^verbatim>\<open>DtoDeclarationExp\<close> is not among the given source files. The
  caller's comment says that it allocates the variable unless that was done already; the
  spec says that a variable without shared storage gets a separately allocated slot.
\<close>

definition DtoDeclarationExp :: "VarDeclaration \<Rightarrow> IRState \<Rightarrow> IRState" where
  "DtoDeclarationExp v s =
     (case irLocal s (vid v) of
        Some l \<Rightarrow> s
      | None \<Rightarrow>
          (let (a, s1) = DtoAlloca (vtype v) ''var'' s
           in s1\<lparr>irLocal := (irLocal s1)(vid v \<mapsto> a)\<rparr>))"

text \<open>Straight-line lowering of a statement: one region in the current block.\<close>

definition toIR_inline :: lowering where
  "toIR_inline b s = emit (IStmt b) s"

subsection \<open>IRLandingPad\<close>

text \<open>\<^verbatim>\<open>IRLandingPad::getExceptionStorage\<close>\<close>

definition getExceptionStorage :: "IRState \<Rightarrow> llvalue \<times> IRState" where
  "getExceptionStorage s =
     (case catch_var s of
        Some v \<Rightarrow> (v, s)
      | None \<Rightarrow>
          (let (v, s1) = DtoAlloca (TClass ClassDeclaration_object) ''catchvar'' s
           in (v, s1\<lparr>catch_var := Some v\<rparr>)))"

text \<open>
  The constructor of a catch entry, lines 17 to 39: the storage of the catch variable.
  Lines 21 to 29 give a variable without nested references the shared slot; lines 34 to 38
  copy the exception into the variable when its storage is not the shared slot itself.
\<close>

definition shareCatchStorage :: "VarDeclaration \<Rightarrow> IRState \<Rightarrow> error + IRState" where
  "shareCatchStorage v s =
     (if nestedrefs_dim v = 0 then
        (case irLocal s (vid v) of
           Some l \<Rightarrow> Inl (AssertionFailed ''!catchstmt->var->ir.irLocal'')
         | None \<Rightarrow>
             (let (cv, s1) = getExceptionStorage s
              in Inr (s1\<lparr>irLocal := (irLocal s1)
                   (vid v \<mapsto> CreateBitCast cv (getPtrToType (DtoType (vtype v))))\<rparr>)))
      else Inr s)"

definition copyException :: "VarDeclaration \<Rightarrow> IRState \<Rightarrow> error + IRState" where
  "copyException v s =
     (let (cv, s4) = getExceptionStorage s
      in case irLocal s4 (vid v) of
           None \<Rightarrow> Inl (Undefined ''catchstmt->var->ir.irLocal is null'')
         | Some l \<Rightarrow>
             if l \<noteq> cv then
               (let (cv2, s5) = getExceptionStorage s4;
                    (ld, s6) = DtoLoad cv2 s5;
                    exc = CreateBitCast ld (DtoType (vtype v))
                in Inr (DtoStore exc l s6))
             else Inr s4)"

definition assignCatchVar :: "Catch \<Rightarrow> IRState \<Rightarrow> error + IRState" where
  "assignCatchVar c s =
     (case var c of
        None \<Rightarrow> Inr s
      | Some v \<Rightarrow>
          bind_err (shareCatchStorage v s) (\<lambda>s2. copyException v (DtoDeclarationExp v s2)))"

text \<open>
  \<^verbatim>\<open>IRLandingPadInfo::IRLandingPadInfo(Catch*, BasicBlock*)\<close>. The last line,
  \<^verbatim>\<open>catchType->codegen(Type::sir)\<close>, calls code that is not among the given source files;
  it is taken to resolve the IR struct of the class, which the constructor of the landing
  pad asserts later.
\<close>

definition IRLandingPadInfo_Catch ::
  "lowering \<Rightarrow> Catch \<Rightarrow> block \<Rightarrow> IRState \<Rightarrow> error + (IRLandingPadInfo \<times> IRState)" where
  "IRLandingPadInfo_Catch toIR catchstmt endbb s =
     (let (tgt, s1) = BasicBlock_Create s;
          s2 = s1\<lparr>scopebb := tgt, scopeend := endbb\<rparr>
      in bind_err (assignCatchVar catchstmt s2) (\<lambda>s3.
           let s4 = (case handler catchstmt of Some h \<Rightarrow> toIR h s3 | None \<Rightarrow> s3);
               s5 = (if \<not> scopereturned s4 then emit (IBr endbb) s4 else s4)
           in case ctype catchstmt of
                None \<Rightarrow> Inl (AssertionFailed ''catchstmt->type'')
              | Some t \<Rightarrow>
                  (case isClassHandle t of
                     None \<Rightarrow> Inl (AssertionFailed ''catchType'')
                   | Some cd \<Rightarrow>
                       Inr (\<lparr>target = Some tgt, finallyBody = None, catchType = Some cd\<rparr>,
                            s5\<lparr>irStruct := insert cd (irStruct s5)\<rparr>))))"

text \<open>\<^verbatim>\<open>IRLandingPadInfo::IRLandingPadInfo(Statement*)\<close>\<close>

definition IRLandingPadInfo_Finally :: "stmt \<Rightarrow> IRLandingPadInfo" where
  "IRLandingPadInfo_Finally finallystmt =
     \<lparr>target = None, finallyBody = Some finallystmt, catchType = None\<rparr>"

text \<open>The default entry that \<^verbatim>\<open>std::deque::resize\<close> appends when it grows a list.\<close>

definition IRLandingPadInfo_default :: IRLandingPadInfo where
  "IRLandingPadInfo_default = \<lparr>target = None, finallyBody = None, catchType = None\<rparr>"

definition resize :: "nat \<Rightarrow> IRLandingPadInfo list \<Rightarrow> IRLandingPadInfo list" where
  "resize n xs = take n xs @ replicate (n - length xs) IRLandingPadInfo_default"

definition addCatch :: "lowering \<Rightarrow> Catch \<Rightarrow> block \<Rightarrow> IRState \<Rightarrow> error + IRState" where
  "addCatch toIR catchstmt endbb s =
     bind_err (IRLandingPadInfo_Catch toIR catchstmt endbb s) (\<lambda>(info, s1).
       Inr (s1\<lparr>unpushed_infos := info # unpushed_infos s1\<rparr>))"

definition addFinally :: "stmt \<Rightarrow> IRState \<Rightarrow> IRState" where
  "addFinally finallystmt s =
     s\<lparr>unpushed_infos := IRLandingPadInfo_Finally finallystmt # unpushed_infos s\<rparr>"

text \<open>
  \<^verbatim>\<open>constructLandingPad\<close>, lines 112 to 141: the arguments of the selector call.
  The loop returns \<open>hasFinally\<close>, \<open>hasCatch\<close> and the class infos collected so far.
\<close>

fun classinfos :: "classdecl set \<Rightarrow> IRLandingPadInfo list \<Rightarrow> bool \<times> bool \<times> llvalue list
    \<Rightarrow> error + (bool \<times> bool \<times> llvalue list)" where
  "classinfos st [] acc = Inr acc"
| "classinfos st (it # rest) (hasFinally, hasCatch, args) =
     (case finallyBody it of
        Some b \<Rightarrow> classinfos st rest (True, hasCatch, args)
      | None \<Rightarrow>
          (case catchType it of
             None \<Rightarrow> Inl (AssertionFailed ''it->catchType'')
           | Some c \<Rightarrow>
               if c \<notin> st then Inl (AssertionFailed ''it->catchType->ir.irStruct'')
               else classinfos st rest (hasFinally, True, VClassInfo c # args)))"

definition personality_fn_arg :: llvalue where
  "personality_fn_arg = CreateBitCast (VFunction ''_d_eh_personality'') (getPtrToType (LInt 8))"

definition selectorargs :: "classdecl set \<Rightarrow> IRLandingPadInfo list \<Rightarrow> llvalue
    \<Rightarrow> error + (bool \<times> llvalue list)" where
  "selectorargs st is eh_ptr =
     bind_err (classinfos st is (False, False, [])) (\<lambda>(hasFinally, hasCatch, args).
       let args1 = (if hasFinally then args @ [VConstUint 0] else args);
           args2 = personality_fn_arg # args1;
           args3 = eh_ptr # args2
       in Inr (hasCatch, args3))"

text \<open>
  Lines 172 to 177: the test of one catch entry. A block \<^verbatim>\<open>eh.next\<close> is
  created, the selector is compared with the type id of the class, and the scope moves to
  the new block.
\<close>

definition emitCatchTest :: "llvalue \<Rightarrow> classdecl \<Rightarrow> block \<Rightarrow> IRState \<Rightarrow> IRState" where
  "emitCatchTest eh_sel c tgt s =
     (let (next, s1) = BasicBlock_Create s;
          classInfo = CreateBitCast (VClassInfo c) (getPtrToType (LInt 8));
          (eh_id, s2) = CreateCall eh_typeid_for [classInfo] (LInt 32) s1;
          s3 = emit (ICondBr (VICmpEQ eh_sel eh_id) tgt next) s2
      in s3\<lparr>scopebb := next\<rparr>)"

text \<open>
  Lines 158 to 179: the walk over the copy of the list, last entry first. The argument
  \<open>rits\<close> is the part of the reversed copy still to visit; the live list and the live
  checkpoint stack are those of the state.
\<close>

fun walk :: "lowering \<Rightarrow> llvalue \<Rightarrow> IRLandingPadInfo list \<Rightarrow> IRState \<Rightarrow> error + IRState" where
  "walk toIR eh_sel [] s = Inr s"
| "walk toIR eh_sel (rit # rits) s =
     (case finallyBody rit of
        Some body \<Rightarrow>
          (case nInfos s of
             [] \<Rightarrow> Inl (Undefined ''nInfos.top() on an empty stack'')
           | n # ns \<Rightarrow>
               walk toIR eh_sel rits (toIR body (s\<lparr>infos := resize n (infos s), nInfos := ns\<rparr>)))
      | None \<Rightarrow>
          (case catchType rit of
             None \<Rightarrow> Inl (Undefined ''rit->catchType is null'')
           | Some c \<Rightarrow>
               if c \<notin> irStruct s then Inl (Undefined ''rit->catchType->ir.irStruct is null'')
               else
                 (case target rit of
                    None \<Rightarrow> Inl (Undefined ''rit->target is null'')
                  | Some tgt \<Rightarrow> walk toIR eh_sel rits (emitCatchTest eh_sel c tgt s))))"

definition constructLandingPad :: "lowering \<Rightarrow> block \<Rightarrow> IRState \<Rightarrow> error + IRState" where
  "constructLandingPad toIR inBB s =
     (let savedscope = (scopebb s, scopeend s);
          s1 = s\<lparr>scopebb := inBB\<rparr>;
          (eh_ptr, s2) = CreateCall eh_exception [] (LPtr (LInt 8)) s1
      in bind_err (selectorargs (irStruct s2) (infos s2) eh_ptr) (\<lambda>(hasCatch, args).
           let s3 = (case catch_var s2 of
                       Some cv \<Rightarrow>
                         if hasCatch then
                           emit (IStore (CreateBitCast eh_ptr
                             (DtoType (TClass ClassDeclaration_object))) cv) s2
                         else s2
                     | None \<Rightarrow> s2);
               (eh_sel, s4) = CreateCall eh_selector args (LInt 32) s3;
               infos_copy = infos s4;
               nInfos_copy = nInfos s4
           in bind_err (walk toIR eh_sel (rev infos_copy) s4) (\<lambda>s5.
                let s6 = s5\<lparr>infos := infos_copy, nInfos := nInfos_copy\<rparr>;
                    (r, s7) = CreateCall (RuntimeFn ''_d_eh_resume_unwind'') [eh_ptr] LVoid s6;
                    s8 = emit IUnreachable s7
                in Inr (s8\<lparr>scopebb := fst savedscope, scopeend := snd savedscope\<rparr>))))"

definition push :: "lowering \<Rightarrow> block \<Rightarrow> IRState \<Rightarrow> error + IRState" where
  "push toIR inBB s =
     (let s1 = s\<lparr>nInfos := length (infos s) # nInfos s\<rparr>;
          s2 = s1\<lparr>infos := infos s1 @ unpushed_infos s1\<rparr>;
          s3 = s2\<lparr>unpushed_infos := []\<rparr>
      in bind_err (constructLandingPad toIR inBB s3) (\<lambda>s4.
           Inr (s4\<lparr>padBBs := inBB # padBBs s4\<rparr>)))"

definition pop :: "IRState \<Rightarrow> error + IRState" where
  "pop s =
     (case padBBs s of
        [] \<Rightarrow> Inl (Undefined ''padBBs.pop() on an empty stack'')
      | b # bs \<Rightarrow>
          (case nInfos s of
             [] \<Rightarrow> Inl (Undefined ''nInfos.top() on an empty stack'')
           | n # ns \<Rightarrow> Inr (s\<lparr>padBBs := bs, infos := resize n (infos s), nInfos := ns\<rparr>)))"

definition get :: "IRState \<Rightarrow> block option" where
  "get s = (case padBBs s of [] \<Rightarrow> None | b # bs \<Rightarrow> Some b)"

subsection \<open>Sequences of operations and the discipline of the scope stack\<close>

text \<open>
  What the theorems ask of the lowering of a statement: it leaves the stack of landing
  pads as it found it (every try statement lowered inside pops what it pushed).
\<close>

definition keeps_padBBs :: "lowering \<Rightarrow> bool" where
  "keeps_padBBs toIR = (\<forall>b t. padBBs (toIR b t) = padBBs t)"

definition keeps_scopes :: "lowering \<Rightarrow> bool" where
  "keeps_scopes toIR = (\<forall>b t. padBBs (toIR b t) = padBBs t \<and> infos (toIR b t) = infos t
      \<and> nInfos (toIR b t) = nInfos t)"

datatype op = AddCatch Catch block | AddFinally stmt | Push block | Pop

fun step :: "lowering \<Rightarrow> op \<Rightarrow> IRState \<Rightarrow> error + IRState" where
  "step toIR (AddCatch c e) s = addCatch toIR c e s"
| "step toIR (AddFinally f) s = Inr (addFinally f s)"
| "step toIR (Push b) s = push toIR b s"
| "step toIR Pop s = pop s"

fun run :: "lowering \<Rightarrow> op list \<Rightarrow> IRState \<Rightarrow> error + IRState" where
  "run toIR [] s = Inr s"
| "run toIR (x # xs) s = bind_err (step toIR x s) (run toIR xs)"

text \<open>
  As many landing pads as checkpoints, no checkpoint beyond the end of the handler list,
  and checkpoints weakly increasing from the bottom of the stack (the end of the list) to
  its top.
\<close>

definition scope_inv :: "IRState \<Rightarrow> bool" where
  "scope_inv s = (length (padBBs s) = length (nInfos s)
     \<and> (\<forall>n \<in> set (nInfos s). n \<le> length (infos s))
     \<and> sorted (rev (nInfos s)))"

fun aborts_with_diagnostic :: "error + 'a \<Rightarrow> bool" where
  "aborts_with_diagnostic (Inl (AssertionFailed m)) = True"
| "aborts_with_diagnostic r = False"

subsection \<open>Example inputs\<close>

text \<open>
  A function under generation: blocks 0 to 9 exist, nothing is emitted yet, no try
  statement is open.
\<close>

definition example_state :: IRState where
  "example_state = \<lparr>infos = [], unpushed_infos = [], nInfos = [], padBBs = [], catch_var = None,
     scopebb = 0, scopeend = 1, code = [], allocas = [], nextbb = 10, nextval = 0,
     irLocal = Map.empty, irStruct = {}\<rparr>"

text \<open>A catch clause of class \<open>c\<close> with handler \<open>h\<close> and no variable.\<close>

definition example_catch :: "classdecl \<Rightarrow> stmt \<Rightarrow> Catch" where
  "example_catch c h = \<lparr>var = None, handler = Some h, ctype = Some (TClass c)\<rparr>"

subsection \<open>Notions used to state the properties of the landing pad\<close>

text \<open>The classes of the catch entries of a list, in list order.\<close>

definition catch_classes :: "IRLandingPadInfo list \<Rightarrow> classdecl list" where
  "catch_classes is =
     List.map_filter (\<lambda>it. if finallyBody it = None then catchType it else None) is"

definition has_finally :: "IRLandingPadInfo list \<Rightarrow> bool" where
  "has_finally is = list_ex (\<lambda>it. finallyBody it \<noteq> None) is"

text \<open>The instructions of a block in the state an operation returned.\<close>

definition emitted :: "error + IRState \<Rightarrow> block \<Rightarrow> instr list" where
  "emitted r b = (case r of Inl e \<Rightarrow> [] | Inr s \<Rightarrow> block_instrs (code s) b)"

text \<open>
  The stages of \<open>constructLandingPad\<close>: the store of line 147, the state in which
  the walk starts, and the state returned once the walk has ended in \<open>s5\<close>.
\<close>

definition store_exception :: "IRState \<Rightarrow> bool \<Rightarrow> block \<Rightarrow> (block \<times> instr) list" where
  "store_exception s hasCatch inBB =
     (case catch_var s of
        Some cv \<Rightarrow>
          if hasCatch then
            [(inBB, IStore (VCast (VInst (nextval s) (LPtr (LInt 8)))
                (LPtr (LStruct ClassDeclaration_object))) cv)]
          else []
      | None \<Rightarrow> [])"

definition before_walk :: "IRState \<Rightarrow> block \<Rightarrow> bool \<Rightarrow> llvalue list \<Rightarrow> IRState" where
  "before_walk s inBB hasCatch args =
     s\<lparr>scopebb := inBB, nextval := Suc (Suc (nextval s)),
       code := code s @ (inBB, ICall (nextval s) eh_exception [])
         # store_exception s hasCatch inBB
         @ [(inBB, ICall (Suc (nextval s)) eh_selector args)]\<rparr>"

definition after_walk :: "IRState \<Rightarrow> IRState \<Rightarrow> IRState" where
  "after_walk s s5 =
     s5\<lparr>infos := infos s, nInfos := nInfos s, nextval := Suc (nextval s5),
        code := code s5 @
          [(scopebb s5, ICall (nextval s5) (RuntimeFn ''_d_eh_resume_unwind'')
              [VInst (nextval s) (LPtr (LInt 8))]),
           (scopebb s5, IUnreachable)],
        scopebb := scopebb s, scopeend := scopeend s\<rparr>"

subsection \<open>Running the code of a landing pad\<close>

text \<open>
  Modelled from the spec: the unwinding runtime and the meaning of the emitted
  instructions are external. The unwinder enters a landing pad with a selector value
  \<open>sel\<close>; \<open>tid\<close> gives the type id of every class. \<open>exec\<close> runs the instructions of the current block: the selector
  call returns \<open>sel\<close>, \<^verbatim>\<open>llvm.eh.typeid.for\<close> returns the type id of the class whose
  class info it is given, a conditional branch compares, and a branch to a block that has
  no instruction in the code at hand leaves it. The region of a lowered statement runs to
  its end. Every branch taken costs one unit of \<open>k\<close>. The result is the list of the
  instructions executed and the way the run ended.
\<close>

datatype halt = Leaves block | Unreachable | FellOff | Stuck | OutOfFuel

fun classOf :: "llvalue \<Rightarrow> classdecl option" where
  "classOf (VClassInfo c) = Some c"
| "classOf (VCast v t) = classOf v"
| "classOf v = None"

fun eval :: "(nat \<Rightarrow> int option) \<Rightarrow> llvalue \<Rightarrow> int option" where
  "eval regs (VInst n t) = regs n"
| "eval regs (VConstUint n) = Some (int n)"
| "eval regs (VICmpEQ a b) =
     (case eval regs a of
        None \<Rightarrow> None
      | Some x \<Rightarrow> (case eval regs b of None \<Rightarrow> None | Some y \<Rightarrow> Some (if x = y then 1 else 0)))"
| "eval regs v = None"

fun call_result :: "int \<Rightarrow> (classdecl \<Rightarrow> int) \<Rightarrow> callee \<Rightarrow> llvalue list \<Rightarrow> int option" where
  "call_result sel tid eh_selector args = Some sel"
| "call_result sel tid eh_typeid_for [a] = map_option tid (classOf a)"
| "call_result sel tid f args = None"

definition after :: "instr \<Rightarrow> instr list \<times> halt \<Rightarrow> instr list \<times> halt" where
  "after i r = (i # fst r, snd r)"

fun exec :: "nat \<Rightarrow> (block \<times> instr) list \<Rightarrow> int \<Rightarrow> (classdecl \<Rightarrow> int) \<Rightarrow> (nat \<Rightarrow> int option)
    \<Rightarrow> instr list \<Rightarrow> instr list \<times> halt" where
  "exec k cd sel tid regs [] = ([], FellOff)"
| "exec k cd sel tid regs (ICall r f args # is) =
     after (ICall r f args) (exec k cd sel tid (regs(r := call_result sel tid f args)) is)"
| "exec k cd sel tid regs (ILoad r p # is) =
     after (ILoad r p) (exec k cd sel tid (regs(r := None)) is)"
| "exec k cd sel tid regs (IStore v p # is) = after (IStore v p) (exec k cd sel tid regs is)"
| "exec k cd sel tid regs (IStmt b # is) = after (IStmt b) (exec k cd sel tid regs is)"
| "exec k cd sel tid regs (IUnreachable # is) = ([IUnreachable], Unreachable)"
| "exec k cd sel tid regs (IBr t # is) =
     (if block_instrs cd t = [] then ([IBr t], Leaves t)
      else (case k of
              0 \<Rightarrow> ([IBr t], OutOfFuel)
            | Suc k' \<Rightarrow> after (IBr t) (exec k' cd sel tid regs (block_instrs cd t))))"
| "exec k cd sel tid regs (ICondBr c t e # is) =
     (case eval regs c of
        None \<Rightarrow> ([ICondBr c t e], Stuck)
      | Some v \<Rightarrow>
          if block_instrs cd (if v \<noteq> 0 then t else e) = []
          then ([ICondBr c t e], Leaves (if v \<noteq> 0 then t else e))
          else (case k of
                  0 \<Rightarrow> ([ICondBr c t e], OutOfFuel)
                | Suc k' \<Rightarrow>
                    after (ICondBr c t e)
                      (exec k' cd sel tid regs (block_instrs cd (if v \<noteq> 0 then t else e)))))"

definition landing_pad_code :: "IRState \<Rightarrow> error + IRState \<Rightarrow> (block \<times> instr) list" where
  "landing_pad_code s r = (case r of Inl e \<Rightarrow> [] | Inr s' \<Rightarrow> drop (length (code s)) (code s'))"

definition dispatch :: "nat \<Rightarrow> (block \<times> instr) list \<Rightarrow> int \<Rightarrow> (classdecl \<Rightarrow> int) \<Rightarrow> block
    \<Rightarrow> instr list \<times> halt" where
  "dispatch k cd sel tid b = exec k cd sel tid (\<lambda>r. None) (block_instrs cd b)"


text \<open>
  What a landing pad is expected to do, in the words of the design: scan the entries in
  the given order, run the body of every finally passed, and hand control to the target of
  the first catch whose type id is the selector; \<open>None\<close> when no catch matches.
\<close>

fun unwind_spec :: "int \<Rightarrow> (classdecl \<Rightarrow> int) \<Rightarrow> IRLandingPadInfo list \<Rightarrow> stmt list \<times> block option" where
  "unwind_spec sel tid [] = ([], None)"
| "unwind_spec sel tid (it # rest) =
     (case finallyBody it of
        Some body \<Rightarrow> (body # fst (unwind_spec sel tid rest), snd (unwind_spec sel tid rest))
      | None \<Rightarrow>
          if map_option tid (catchType it) = Some sel then ([], target it)
          else unwind_spec sel tid rest)"

fun stmt_of :: "instr \<Rightarrow> stmt option" where
  "stmt_of (IStmt b) = Some b"
| "stmt_of i = None"

fun resume_of :: "instr \<Rightarrow> llvalue list option" where
  "resume_of (ICall r (RuntimeFn f) args) = (if f = ''_d_eh_resume_unwind'' then Some args else None)"
| "resume_of i = None"

definition stmts_run :: "instr list \<Rightarrow> stmt list" where
  "stmts_run tr = List.map_filter stmt_of tr"

definition resume_calls :: "instr list \<Rightarrow> llvalue list list" where
  "resume_calls tr = List.map_filter resume_of tr"

definition agrees :: "instr list \<times> halt \<Rightarrow> stmt list \<times> block option \<Rightarrow> llvalue list \<Rightarrow> bool" where
  "agrees r sp resargs =
     (stmts_run (fst r) = fst sp
      \<and> (case snd sp of
            Some t \<Rightarrow> snd r = Leaves t \<and> resume_calls (fst r) = []
          | None \<Rightarrow> snd r = Unreachable
              \<and> (\<exists>pre i. fst r = pre @ [i, IUnreachable] \<and> resume_of i = Some resargs
                    \<and> resume_calls pre = [])))"

text \<open>
  The entries that \<open>addCatch\<close> makes of the catch clauses \<open>cs\<close> of one try statement,
  in the order of declaration, when the first target block created is \<open>n\<close>.
\<close>

fun catch_entries :: "Catch list \<Rightarrow> nat \<Rightarrow> IRLandingPadInfo list" where
  "catch_entries [] n = []"
| "catch_entries (c # cs) n =
     \<lparr>target = Some n, finallyBody = None,
      catchType = (case ctype c of None \<Rightarrow> None | Some t \<Rightarrow> isClassHandle t)\<rparr>
     # catch_entries cs (Suc n)"

text \<open>The state in which \<open>push\<close> calls the constructor.\<close>

definition pushed :: "IRState \<Rightarrow> IRState" where
  "pushed s = s\<lparr>nInfos := length (infos s) # nInfos s, infos := infos s @ unpushed_infos s,
     unpushed_infos := []\<rparr>"

text \<open>
  Inside the body of a try statement whose only catch clause, of class 3, has the target
  block 3 and whose landing pad is block 2.
\<close>

definition example_nested :: IRState where
  "example_nested =
     example_state\<lparr>infos := [\<lparr>target = Some 3, finallyBody = None, catchType = Some 3\<rparr>],
       nInfos := [0], padBBs := [2], irStruct := {3}\<rparr>"

subsection \<open>Notions used to state the properties of the exception storage\<close>

text \<open>
  The allocas of the shared slot and those of variables; a function has at most one shared
  slot when \<open>storage_inv\<close> holds. \<open>strip_casts\<close> gives the value a pointer cast is
  applied to: two values with the same result address the same memory.
\<close>

definition catchvar_allocas :: "IRState \<Rightarrow> (nat \<times> lltype \<times> string) list" where
  "catchvar_allocas s = filter (\<lambda>a. snd (snd a) = ''catchvar'') (allocas s)"

definition var_allocas :: "IRState \<Rightarrow> (nat \<times> lltype \<times> string) list" where
  "var_allocas s = filter (\<lambda>a. snd (snd a) = ''var'') (allocas s)"

definition storage_inv :: "IRState \<Rightarrow> bool" where
  "storage_inv s = (length (catchvar_allocas s) = (if catch_var s = None then 0 else 1))"

fun strip_casts :: "llvalue \<Rightarrow> llvalue" where
  "strip_casts (VCast v t) = strip_casts v"
| "strip_casts v = v"

text \<open>
  A catch clause of class \<open>c\<close> with handler \<open>h\<close>, whose variable \<open>n\<close> is referenced
  from \<open>k\<close> nested functions.
\<close>

definition example_catch_var :: "nat \<Rightarrow> classdecl \<Rightarrow> nat \<Rightarrow> stmt \<Rightarrow> Catch" where
  "example_catch_var n c k h =
     \<lparr>var = Some \<lparr>vid = n, vtype = TClass c, nestedrefs_dim = k\<rparr>, handler = Some h,
      ctype = Some (TClass c)\<rparr>"

text \<open>
  An entry that the constructor can process: a finally, or a catch with a class whose IR
  struct is resolved and with a target block. \<open>finally_count\<close> counts the finally
  entries of a list.
\<close>

definition wf_entry :: "classdecl set \<Rightarrow> IRLandingPadInfo \<Rightarrow> bool" where
  "wf_entry st it =
     (case finallyBody it of
        Some b \<Rightarrow> True
      | None \<Rightarrow> (case catchType it of None \<Rightarrow> False | Some c \<Rightarrow> c \<in> st \<and> target it \<noteq> None))"

definition finally_count :: "IRLandingPadInfo list \<Rightarrow> nat" where
  "finally_count is = length (filter (\<lambda>it. finallyBody it \<noteq> None) is)"

subsection \<open>Try statements inside handlers and inside try bodies\<close>

text \<open>
  Modelled from the spec: the lowering of a try statement is not among the given source
  files. Section 2 of the spec has statement lowering push and pop scopes on the scope
  stack as it enters and leaves a try statement, and section 4.1 has \<open>addFinally\<close> stage
  the cleanup and \<open>push\<close> build the landing pad. So a statement
  \<^verbatim>\<open>try body finally fin\<close> with the landing block \<open>lp\<close> stages \<open>fin\<close>, pushes, lowers
  its body and pops; what else its lowering emits does not touch the scope stack and is
  left out. A push or pop that fails aborts the generation; the lowering being a total
  function here, it then returns the state it was given.
\<close>

definition toIR_try_finally :: "block \<Rightarrow> stmt \<Rightarrow> stmt \<Rightarrow> IRState \<Rightarrow> IRState" where
  "toIR_try_finally lp body fin s =
     (case push toIR_inline lp (addFinally fin s) of
        Inl e \<Rightarrow> s
      | Inr s1 \<Rightarrow> (case pop (toIR_inline body s1) of Inl e \<Rightarrow> s | Inr s2 \<Rightarrow> s2))"

text \<open>
  The statement 22 is \<^verbatim>\<open>try { 40 } finally { 41 }\<close> with the landing block 6; every
  other statement is straight-line code.
\<close>

definition example_lowering :: lowering where
  "example_lowering b s = (if b = 22 then toIR_try_finally 6 40 41 s else toIR_inline b s)"

text \<open>The handler list and the code in the state an operation returned.\<close>

definition handler_list :: "error + IRState \<Rightarrow> IRLandingPadInfo list" where
  "handler_list r = (case r of Inl e \<Rightarrow> [] | Inr s \<Rightarrow> infos s)"

definition code_of :: "error + IRState \<Rightarrow> (block \<times> instr) list" where
  "code_of r = (case r of Inl e \<Rightarrow> [] | Inr s \<Rightarrow> code s)"

text \<open>
  A try statement with catch clauses of the classes 3, 4 and 5, the handler of the third
  being the statement 22, and the landing block 2.
\<close>

definition example_try_in_handler :: "error + IRState" where
  "example_try_in_handler =
     run example_lowering [AddCatch (example_catch 3 20) 1, AddCatch (example_catch 4 21) 1,
       AddCatch (example_catch 5 22) 1, Push 2] example_state"

text \<open>
  Three try statements inside one another: a catch of class 3 (landing block 2), inside it
  a finally with the body 7 (landing block 4), inside that a catch of class 4. The state
  is the one in which the push of the innermost try calls the constructor.
\<close>

definition example_three_levels :: IRState where
  "example_three_levels =
     (case run toIR_inline [AddCatch (example_catch 3 20) 1, Push 2, AddFinally 7, Push 4,
             AddCatch (example_catch 4 21) 1] example_state of
        Inl e \<Rightarrow> example_state
      | Inr s \<Rightarrow> pushed s)"

section \<open>Properties\<close>

subsection \<open>Auxiliary facts\<close>

lemmas lp_eval = push_def pop_def get_def addFinally_def addCatch_def constructLandingPad_def
  selectorargs_def IRLandingPadInfo_Catch_def IRLandingPadInfo_Finally_def
  assignCatchVar_def shareCatchStorage_def copyException_def bind_err_def Let_def CreateCall_def
  emit_def toIR_inline_def resize_def
  BasicBlock_Create_def scopereturned_def block_instrs_def personality_fn_arg_def
  CreateBitCast_def getPtrToType_def ClassDeclaration_object_def example_state_def
  example_catch_def emitCatchTest_def

lemma emitCatchTest_eq:
  "emitCatchTest sel c tgt s =
     s\<lparr>nextbb := Suc (nextbb s), nextval := Suc (nextval s),
       code := code s @
         [(scopebb s, ICall (nextval s) eh_typeid_for [VCast (VClassInfo c) (LPtr (LInt 8))]),
          (scopebb s, ICondBr (VICmpEQ sel (VInst (nextval s) (LInt 32))) tgt (nextbb s))],
       scopebb := nextbb s\<rparr>"
  by (simp add: emitCatchTest_def BasicBlock_Create_def CreateCall_def emit_def
      CreateBitCast_def getPtrToType_def)

lemma keeps_scopes_inline: "keeps_scopes toIR_inline"
  by (simp add: keeps_scopes_def toIR_inline_def emit_def)

lemma keeps_padBBs_inline: "keeps_padBBs toIR_inline"
  by (simp add: keeps_padBBs_def toIR_inline_def emit_def)

lemma keeps_scopes_padBBs: "keeps_scopes toIR \<Longrightarrow> keeps_padBBs toIR"
  by (simp add: keeps_scopes_def keeps_padBBs_def)

lemma resize_length [simp]: "length (resize n xs) = n"
  by (simp add: resize_def)

lemma resize_take: "n \<le> length xs \<Longrightarrow> resize n xs = take n xs"
  by (simp add: resize_def)

lemma constructLandingPad_restores:
  "constructLandingPad toIR inBB s = Inr s' \<Longrightarrow> infos s' = infos s \<and> nInfos s' = nInfos s"
  by (auto simp: constructLandingPad_def CreateCall_def emit_def bind_err_def Let_def
      split: sum.splits prod.splits option.splits if_splits)

lemma walk_padBBs:
  "keeps_padBBs toIR \<Longrightarrow> walk toIR sel rits s = Inr s' \<Longrightarrow> padBBs s' = padBBs s"
proof (induction rits arbitrary: s)
  case Nil
  then show ?case by simp
next
  case (Cons rit rits)
  show ?case
  proof (cases "finallyBody rit")
    case (Some body)
    with Cons.prems obtain n ns where ns: "nInfos s = n # ns"
      and w: "walk toIR sel rits (toIR body (s\<lparr>infos := resize n (infos s), nInfos := ns\<rparr>)) = Inr s'"
      by (auto split: list.splits)
    from Cons.IH [OF Cons.prems(1) w] Cons.prems(1) show ?thesis
      by (simp add: keeps_padBBs_def)
  next
    case None
    with Cons.prems obtain c tgt where
      w: "walk toIR sel rits (emitCatchTest sel c tgt s) = Inr s'"
      by (auto split: option.splits if_splits)
    from Cons.IH [OF Cons.prems(1) w] show ?thesis
      by (simp add: emitCatchTest_eq)
  qed
qed

lemma constructLandingPad_padBBs:
  "keeps_padBBs toIR \<Longrightarrow> constructLandingPad toIR inBB s = Inr s' \<Longrightarrow> padBBs s' = padBBs s"
  by (auto simp: constructLandingPad_def CreateCall_def emit_def bind_err_def Let_def
      split: sum.splits prod.splits option.splits if_splits dest!: walk_padBBs)

lemma push_fields:
  assumes "keeps_padBBs toIR" and "push toIR inBB s = Inr s1"
  shows "infos s1 = infos s @ unpushed_infos s \<and> nInfos s1 = length (infos s) # nInfos s
     \<and> padBBs s1 = inBB # padBBs s"
  using assms
  by (auto simp: push_def bind_err_def Let_def split: sum.splits
      dest: constructLandingPad_restores constructLandingPad_padBBs)

lemma getExceptionStorage_scopes:
  "infos (snd (getExceptionStorage s)) = infos s \<and> nInfos (snd (getExceptionStorage s)) = nInfos s
   \<and> padBBs (snd (getExceptionStorage s)) = padBBs s"
  by (simp add: getExceptionStorage_def DtoAlloca_def split: option.splits)

lemma DtoDeclarationExp_scopes:
  "infos (DtoDeclarationExp v s) = infos s \<and> nInfos (DtoDeclarationExp v s) = nInfos s
   \<and> padBBs (DtoDeclarationExp v s) = padBBs s"
  by (simp add: DtoDeclarationExp_def DtoAlloca_def split: option.splits)

lemma assignCatchVar_scopes:
  "assignCatchVar c s = Inr s' \<Longrightarrow>
     infos s' = infos s \<and> nInfos s' = nInfos s \<and> padBBs s' = padBBs s"
  by (auto simp: assignCatchVar_def shareCatchStorage_def copyException_def bind_err_def Let_def
      split_def DtoLoad_def DtoStore_def emit_def
      getExceptionStorage_scopes DtoDeclarationExp_scopes
      split: option.splits if_splits sum.splits)

lemma addCatch_scopes:
  assumes "keeps_scopes toIR" and "addCatch toIR c e s = Inr s'"
  shows "infos s' = infos s \<and> nInfos s' = nInfos s \<and> padBBs s' = padBBs s"
proof -
  from assms(2) obtain s3 where
    a: "assignCatchVar c (s\<lparr>nextbb := Suc (nextbb s), scopebb := nextbb s, scopeend := e\<rparr>) = Inr s3"
    and r: "infos s' = infos (case handler c of Some h \<Rightarrow> toIR h s3 | None \<Rightarrow> s3)
        \<and> nInfos s' = nInfos (case handler c of Some h \<Rightarrow> toIR h s3 | None \<Rightarrow> s3)
        \<and> padBBs s' = padBBs (case handler c of Some h \<Rightarrow> toIR h s3 | None \<Rightarrow> s3)"
    by (auto simp: addCatch_def IRLandingPadInfo_Catch_def bind_err_def Let_def split_def
        BasicBlock_Create_def emit_def split: sum.splits option.splits if_splits)
  from assms(1) have "infos (case handler c of Some h \<Rightarrow> toIR h s3 | None \<Rightarrow> s3) = infos s3
        \<and> nInfos (case handler c of Some h \<Rightarrow> toIR h s3 | None \<Rightarrow> s3) = nInfos s3
        \<and> padBBs (case handler c of Some h \<Rightarrow> toIR h s3 | None \<Rightarrow> s3) = padBBs s3"
    by (simp add: keeps_scopes_def split: option.splits)
  with r assignCatchVar_scopes [OF a] show ?thesis by simp
qed

lemma scope_inv_push:
  assumes "keeps_padBBs toIR" and "push toIR b s = Inr s'" and "scope_inv s"
  shows "scope_inv s'"
  using push_fields [OF assms(1,2)] assms(3)
  by (auto simp: scope_inv_def sorted_append)

lemma scope_inv_pop:
  assumes "pop s = Inr s'" and "scope_inv s"
  shows "scope_inv s'"
  using assms
  by (auto simp: pop_def scope_inv_def sorted_append split: list.splits)

lemma scope_inv_step:
  assumes "keeps_scopes toIR" and "step toIR x s = Inr s'" and "scope_inv s"
  shows "scope_inv s'"
proof (cases x)
  case (AddCatch c e)
  with assms(2) have "addCatch toIR c e s = Inr s'" by simp
  from addCatch_scopes [OF assms(1) this] assms(3) show ?thesis by (simp add: scope_inv_def)
next
  case (AddFinally f)
  with assms(2,3) show ?thesis by (auto simp: addFinally_def scope_inv_def)
next
  case (Push b)
  with assms show ?thesis by (auto intro: scope_inv_push keeps_scopes_padBBs)
next
  case Pop
  with assms show ?thesis by (auto intro: scope_inv_pop)
qed

lemma scope_inv_run:
  assumes "keeps_scopes toIR"
  shows "run toIR xs s = Inr s' \<Longrightarrow> scope_inv s \<Longrightarrow> scope_inv s'"
proof (induction xs arbitrary: s)
  case Nil
  then show ?case by simp
next
  case (Cons x xs)
  from Cons.prems(1) obtain s1 where s1: "step toIR x s = Inr s1" and r: "run toIR xs s1 = Inr s'"
    by (auto simp: bind_err_def split: sum.splits)
  from Cons.IH [OF r scope_inv_step [OF assms s1 Cons.prems(2)]] show ?case .
qed

subsection \<open>The scope stack\<close>

text \<open>
  C6. When \<open>constructLandingPad\<close> returns, the live handler list and the live checkpoint
  stack are what they were at entry, whatever the walk and the lowering of the finally
  bodies did to them in between.
\<close>

theorem constructLandingPad_live_lists:
  assumes "constructLandingPad toIR inBB s = Inr s'"
  shows "infos s' = infos s \<and> nInfos s' = nInfos s"
  using assms
  by (auto simp: constructLandingPad_def CreateCall_def emit_def bind_err_def Let_def
      split: sum.splits prod.splits option.splits if_splits)

theorem constructLandingPad_live_lists_witness:
  "\<exists>s'. constructLandingPad toIR_inline 5
       (example_state\<lparr>infos := [IRLandingPadInfo_Finally 7], nInfos := [0]\<rparr>) = Inr s'
     \<and> infos s' = [IRLandingPadInfo_Finally 7] \<and> nInfos s' = [0]"
proof -
  let ?s = "example_state\<lparr>infos := [IRLandingPadInfo_Finally 7], nInfos := [0]\<rparr>"
  have "\<exists>s'. constructLandingPad toIR_inline 5 ?s = Inr s'"
    by (simp add: lp_eval)
  then obtain s' where c: "constructLandingPad toIR_inline 5 ?s = Inr s'" ..
  from constructLandingPad_live_lists [OF c] c show ?thesis by simp
qed

text \<open>
  C8, as the code has it. \<open>pop\<close> checks nothing: with an empty stack of landing pads or
  an empty checkpoint stack it runs into undefined behaviour and gives no diagnostic. With
  both stacks non-empty it drops the current landing pad, resizes the handler list to the
  length the top checkpoint records (a truncation when that length is within the list),
  drops the checkpoint, and \<open>get\<close> then answers the enclosing landing pad.
\<close>

theorem pop_behaviour:
  "(padBBs s = [] \<or> nInfos s = [] \<longrightarrow>
      (\<exists>m. pop s = Inl (Undefined m)) \<and> \<not> aborts_with_diagnostic (pop s))
   \<and> (padBBs s = b # bs \<and> nInfos s = n # ns \<longrightarrow>
      (\<exists>s'. pop s = Inr s' \<and> padBBs s' = bs \<and> nInfos s' = ns \<and> length (infos s') = n
         \<and> (n \<le> length (infos s) \<longrightarrow> infos s' = take n (infos s))
         \<and> get s' = (case bs of [] \<Rightarrow> None | b' # bs' \<Rightarrow> Some b')))"
  by (auto simp: pop_def get_def resize_def split: list.splits)

theorem pop_behaviour_witness:
  "padBBs example_state = [] \<and> \<not> aborts_with_diagnostic (pop example_state)
   \<and> (\<exists>s'. pop (example_state\<lparr>padBBs := [4, 2], nInfos := [1, 0],
              infos := [IRLandingPadInfo_default, IRLandingPadInfo_Finally 7]\<rparr>) = Inr s'
        \<and> infos s' = [IRLandingPadInfo_default] \<and> get s' = Some 2)"
  using pop_behaviour [of example_state 0 "[]" 0 "[]"]
    pop_behaviour [of "example_state\<lparr>padBBs := [4, 2], nInfos := [1, 0],
              infos := [IRLandingPadInfo_default, IRLandingPadInfo_Finally 7]\<rparr>" 4 "[2]" 1 "[0]"]
  by (auto simp: example_state_def)

theorem pop_empty_counterexample:
  "pop example_state = Inl (Undefined ''padBBs.pop() on an empty stack'')
   \<and> \<not> aborts_with_diagnostic (pop example_state)"
  by (simp add: pop_def example_state_def)

text \<open>
  C10. Start from a state whose scope stack is empty and run any sequence of
  \<open>addCatch\<close>, \<open>addFinally\<close>, \<open>push\<close> and \<open>pop\<close>. After each of its prefixes that runs
  to completion (so \<open>pop\<close> found a frame each time), there are as many landing pads as
  checkpoints, every checkpoint is at most the length of the handler list, and the
  checkpoints weakly increase from the bottom of the stack to its top.
\<close>

theorem scope_stack_invariant:
  assumes "keeps_scopes toIR"
    and "infos s0 = []" and "nInfos s0 = []" and "padBBs s0 = []"
    and "run toIR (take k ops) s0 = Inr s"
  shows "scope_inv s"
proof -
  from assms(2-4) have "scope_inv s0" by (simp add: scope_inv_def)
  with scope_inv_run [OF assms(1,5)] show ?thesis .
qed

theorem scope_stack_invariant_witness:
  "keeps_scopes toIR_inline \<and> infos example_state = [] \<and> nInfos example_state = []
   \<and> padBBs example_state = []
   \<and> (\<exists>s. run toIR_inline (take 4 [AddCatch (example_catch 3 20) 1, Push 2, AddFinally 7, Push 4,
          Pop, Pop]) example_state = Inr s \<and> nInfos s = [1, 0] \<and> scope_inv s)"
proof -
  let ?ops = "[AddCatch (example_catch 3 20) 1, Push 2, AddFinally 7, Push 4, Pop, Pop]"
  have e: "infos example_state = []" "nInfos example_state = []" "padBBs example_state = []"
    by (simp_all add: example_state_def)
  have "\<exists>s. run toIR_inline (take 4 ?ops) example_state = Inr s \<and> nInfos s = [1, 0]"
    by (simp add: lp_eval)
  then obtain s where r: "run toIR_inline (take 4 ?ops) example_state = Inr s"
    and n: "nInfos s = [1, 0]" by blast
  from scope_stack_invariant [OF keeps_scopes_inline e r] r n e keeps_scopes_inline
  show ?thesis by blast
qed

subsection \<open>The landing-pad constructor\<close>

lemma classinfos_result:
  "classinfos st is (hf, hc, args) = Inr (hf', hc', args') \<Longrightarrow>
     args' = map VClassInfo (rev (catch_classes is)) @ args
     \<and> hf' = (hf \<or> has_finally is)"
proof (induction "is" arbitrary: hf hc args)
  case Nil
  then show ?case by (simp add: catch_classes_def has_finally_def map_filter_simps)
next
  case (Cons it rest)
  show ?case
  proof (cases "finallyBody it")
    case (Some b)
    with Cons.prems have "classinfos st rest (True, hc, args) = Inr (hf', hc', args')" by simp
    from Cons.IH [OF this] Some show ?thesis
      by (simp add: catch_classes_def has_finally_def map_filter_simps)
  next
    case None
    with Cons.prems obtain c where c: "catchType it = Some c"
      and r: "classinfos st rest (hf, True, VClassInfo c # args) = Inr (hf', hc', args')"
      by (auto split: option.splits if_splits)
    from Cons.IH [OF r] None c show ?thesis
      by (simp add: catch_classes_def has_finally_def map_filter_simps)
  qed
qed

lemma selectorargs_result:
  assumes "selectorargs st is eh_ptr = Inr (hc, args)"
  shows "args = eh_ptr # personality_fn_arg # map VClassInfo (rev (catch_classes is))
           @ (if has_finally is then [VConstUint 0] else [])"
  using assms
  by (auto simp: selectorargs_def bind_err_def Let_def split: sum.splits prod.splits if_splits
      dest!: classinfos_result)

lemma walk_inline_code:
  "walk toIR_inline sel rits s = Inr s' \<Longrightarrow> \<exists>xs. code s' = code s @ xs"
proof (induction rits arbitrary: s)
  case Nil
  then show ?case by simp
next
  case (Cons rit rits)
  show ?case
  proof (cases "finallyBody rit")
    case (Some body)
    with Cons.prems obtain n ns where
      w: "walk toIR_inline sel rits (toIR_inline body (s\<lparr>infos := resize n (infos s), nInfos := ns\<rparr>)) = Inr s'"
      by (auto split: list.splits)
    from Cons.IH [OF w] show ?thesis by (auto simp: toIR_inline_def emit_def)
  next
    case None
    with Cons.prems obtain c tgt where
      w: "walk toIR_inline sel rits (emitCatchTest sel c tgt s) = Inr s'"
      by (auto split: option.splits if_splits)
    from Cons.IH [OF w] show ?thesis by (auto simp: emitCatchTest_eq)
  qed
qed


lemma constructLandingPad_eq:
  "constructLandingPad toIR inBB s =
     bind_err (selectorargs (irStruct s) (infos s) (VInst (nextval s) (LPtr (LInt 8))))
       (\<lambda>(hasCatch, args).
          bind_err (walk toIR (VInst (Suc (nextval s)) (LInt 32)) (rev (infos s))
                     (before_walk s inBB hasCatch args))
            (\<lambda>s5. Inr (after_walk s s5)))"
  by (auto simp: constructLandingPad_def CreateCall_def emit_def bind_err_def Let_def
      before_walk_def after_walk_def store_exception_def CreateBitCast_def
      split: sum.splits prod.splits option.splits if_splits)

lemma constructLandingPad_cases:
  assumes "constructLandingPad toIR inBB s = Inr s'"
  obtains hasCatch args s5 where
    "selectorargs (irStruct s) (infos s) (VInst (nextval s) (LPtr (LInt 8))) = Inr (hasCatch, args)"
    "walk toIR (VInst (Suc (nextval s)) (LInt 32)) (rev (infos s))
       (before_walk s inBB hasCatch args) = Inr s5"
    "s' = after_walk s s5"
  using assms unfolding constructLandingPad_eq
  by (auto simp: bind_err_def split: sum.splits prod.splits)

text \<open>
  C2, as the code has it. The selector call of a landing pad gets: first the exception
  pointer (the result of the call that opens the landing block), then the personality
  function, then the class info of every catch entry of the handler list, the last entry of
  the list first (so the innermost catch comes first), and after them the constant 0 when
  the list has a finally entry.
\<close>

theorem selector_call_arguments:
  assumes "constructLandingPad toIR_inline inBB s = Inr s'"
  shows "(inBB, ICall (nextval s) eh_exception []) \<in> set (code s')
     \<and> (inBB, ICall (Suc (nextval s)) eh_selector
          (VInst (nextval s) (LPtr (LInt 8)) # personality_fn_arg
            # map VClassInfo (rev (catch_classes (infos s)))
            @ (if has_finally (infos s) then [VConstUint 0] else []))) \<in> set (code s')"
proof -
  from assms obtain hasCatch args s5 where
    sa: "selectorargs (irStruct s) (infos s) (VInst (nextval s) (LPtr (LInt 8))) = Inr (hasCatch, args)"
    and w: "walk toIR_inline (VInst (Suc (nextval s)) (LInt 32)) (rev (infos s))
       (before_walk s inBB hasCatch args) = Inr s5"
    and s': "s' = after_walk s s5"
    by (rule constructLandingPad_cases)
  from walk_inline_code [OF w] obtain xs where
    "code s5 = code (before_walk s inBB hasCatch args) @ xs" ..
  with s' selectorargs_result [OF sa] show ?thesis
    by (simp add: after_walk_def before_walk_def)
qed

theorem selector_call_arguments_witness:
  "\<exists>s'. constructLandingPad toIR_inline 5
       (example_state\<lparr>infos := [IRLandingPadInfo_Finally 7], nInfos := [0]\<rparr>) = Inr s'
     \<and> (5, ICall 1 eh_selector [VInst 0 (LPtr (LInt 8)), personality_fn_arg, VConstUint 0])
         \<in> set (code s')"
proof -
  let ?s = "example_state\<lparr>infos := [IRLandingPadInfo_Finally 7], nInfos := [0]\<rparr>"
  have "\<exists>s'. constructLandingPad toIR_inline 5 ?s = Inr s'"
    by (simp add: lp_eval)
  then obtain s' where c: "constructLandingPad toIR_inline 5 ?s = Inr s'" ..
  from selector_call_arguments [OF c] c show ?thesis
    by (simp add: example_state_def catch_classes_def has_finally_def map_filter_simps
        IRLandingPadInfo_Finally_def)
qed

text \<open>
  The specification puts the personality function before the exception pointer and the outermost
  catch first. For a try with a catch of class 4 inside a try with a catch of class 3, the
  landing block 5 of the inner try opens with the capture of the exception pointer, and
  its selector call lists the pointer, the personality function, class 4, class 3.
\<close>

theorem selector_arguments_counterexample:
  "emitted (run toIR_inline [AddCatch (example_catch 3 20) 1, Push 2,
       AddCatch (example_catch 4 21) 1, Push 5] example_state) 5 ! 0
     = ICall 4 eh_exception []
   \<and> emitted (run toIR_inline [AddCatch (example_catch 3 20) 1, Push 2,
       AddCatch (example_catch 4 21) 1, Push 5] example_state) 5 ! 1
     = ICall 5 eh_selector [VInst 4 (LPtr (LInt 8)),
         VCast (VFunction ''_d_eh_personality'') (LPtr (LInt 8)), VClassInfo 4, VClassInfo 3]
   \<and> emitted (run toIR_inline [AddCatch (example_catch 3 20) 1, Push 2,
       AddCatch (example_catch 4 21) 1, Push 5] example_state) 5 ! 1
     \<noteq> ICall 5 eh_selector [VCast (VFunction ''_d_eh_personality'') (LPtr (LInt 8)),
         VInst 4 (LPtr (LInt 8)), VClassInfo 3, VClassInfo 4]"
  by (simp add: lp_eval emitted_def)

subsection \<open>The code of a landing pad does what the handler list says\<close>

lemma block_instrs_append [simp]:
  "block_instrs (xs @ ys) b = block_instrs xs b @ block_instrs ys b"
  by (simp add: block_instrs_def)

lemma block_instrs_Cons [simp]:
  "block_instrs ((b', i) # xs) b = (if b' = b then i # block_instrs xs b else block_instrs xs b)"
  by (simp add: block_instrs_def)

lemma block_instrs_Nil [simp]: "block_instrs [] b = []"
  by (simp add: block_instrs_def)

lemma agrees_after_stmt:
  assumes "agrees r (bs, out) ra"
  shows "agrees (after (IStmt b) r) (b # bs, out) ra"
proof (cases out)
  case None
  with assms obtain pre i where "fst r = pre @ [i, IUnreachable]" "resume_of i = Some ra"
    "resume_calls pre = []" by (auto simp: agrees_def)
  then have "fst (after (IStmt b) r) = (IStmt b # pre) @ [i, IUnreachable] \<and> resume_of i = Some ra
    \<and> resume_calls (IStmt b # pre) = []"
    by (simp add: after_def resume_calls_def map_filter_simps)
  then have "\<exists>pre i. fst (after (IStmt b) r) = pre @ [i, IUnreachable] \<and> resume_of i = Some ra
    \<and> resume_calls pre = []" by blast
  with assms None show ?thesis
    by (simp add: agrees_def after_def stmts_run_def map_filter_simps)
next
  case (Some t)
  with assms show ?thesis
    by (simp add: agrees_def after_def stmts_run_def resume_calls_def map_filter_simps)
qed

lemma agrees_after_other:
  assumes "stmt_of j = None" and "resume_of j = None" and "agrees r sp ra"
  shows "agrees (after j r) sp ra"
proof (cases "snd sp")
  case None
  with assms obtain pre i where "fst r = pre @ [i, IUnreachable]" "resume_of i = Some ra"
    "resume_calls pre = []" by (auto simp: agrees_def)
  with assms(2) have "fst (after j r) = (j # pre) @ [i, IUnreachable] \<and> resume_of i = Some ra
    \<and> resume_calls (j # pre) = []"
    by (simp add: after_def resume_calls_def map_filter_simps)
  then have "\<exists>pre i. fst (after j r) = pre @ [i, IUnreachable] \<and> resume_of i = Some ra
    \<and> resume_calls pre = []" by blast
  with assms None show ?thesis
    by (simp add: agrees_def after_def stmts_run_def map_filter_simps)
next
  case (Some t)
  with assms show ?thesis
    by (simp add: agrees_def after_def stmts_run_def resume_calls_def map_filter_simps)
qed

lemma walk_inline_step:
  assumes "walk toIR_inline sel (rit # rits) s = Inr s5"
  obtains (Finally) body n ns where "finallyBody rit = Some body" "nInfos s = n # ns"
      "walk toIR_inline sel rits (emit (IStmt body) (s\<lparr>infos := resize n (infos s), nInfos := ns\<rparr>)) = Inr s5"
    | (Catch) c tgt where "finallyBody rit = None" "catchType rit = Some c" "target rit = Some tgt"
      "walk toIR_inline sel rits (emitCatchTest sel c tgt s) = Inr s5"
  using assms
  by (auto simp: toIR_inline_def split: option.splits list.splits if_splits)

lemma walk_exec:
  assumes "walk toIR_inline (VInst rs (LInt 32)) rits s = Inr s5"
    and "code s5 = code s @ W"
    and "fin = [(scopebb s5, ICall r (RuntimeFn ''_d_eh_resume_unwind'') ra), (scopebb s5, IUnreachable)]"
    and "\<forall>b\<ge>nextbb s. block_instrs N b = block_instrs (W @ fin) b"
    and "\<forall>it\<in>set rits. \<forall>t. target it = Some t \<longrightarrow> block_instrs N t = []"
    and "scopebb s < nextbb s"
    and "rs < nextval s" and "regs rs = Some sel"
    and "length rits \<le> k"
  shows "agrees (exec k N sel tid regs (block_instrs (W @ fin) (scopebb s)))
           (unwind_spec sel tid rits) ra"
  using assms
proof (induction rits arbitrary: s W regs k)
  case Nil
  let ?i = "ICall r (RuntimeFn ''_d_eh_resume_unwind'') ra"
  have "[?i, IUnreachable] = [] @ [?i, IUnreachable] \<and> resume_of ?i = Some ra
      \<and> resume_calls [] = []"
    by (simp add: resume_calls_def map_filter_simps)
  then have "\<exists>pre i. [?i, IUnreachable] = pre @ [i, IUnreachable] \<and> resume_of i = Some ra
      \<and> resume_calls pre = []" by blast
  with Nil show ?case
    by (simp add: agrees_def after_def stmts_run_def map_filter_simps)
next
  case (Cons rit rits)
  from Cons.prems(1) show ?case
  proof (cases rule: walk_inline_step)
    case (Finally body n ns)
    let ?s1 = "emit (IStmt body) (s\<lparr>infos := resize n (infos s), nInfos := ns\<rparr>)"
    from walk_inline_code [of "VInst rs (LInt 32)" rits ?s1 s5] Finally(3)
    obtain W' where W': "code s5 = code ?s1 @ W'" by (auto simp: toIR_inline_def)
    with Cons.prems(2) have W: "W = (scopebb s, IStmt body) # W'"
      by (simp add: emit_def)
    have c: "\<forall>b\<ge>nextbb ?s1. block_instrs N b = block_instrs (W' @ fin) b"
      using Cons.prems(4,6) W by (auto simp: emit_def)
    have "agrees (exec k N sel tid regs (block_instrs (W' @ fin) (scopebb ?s1)))
           (unwind_spec sel tid rits) ra"
      using Cons.prems(5-9)
      by (intro Cons.IH [OF Finally(3) W' Cons.prems(3) c]) (auto simp: emit_def)
    then show ?thesis
      using Finally(1) W
      by (cases "unwind_spec sel tid rits") (simp add: emit_def agrees_after_stmt)
  next
    case (Catch c tgt)
    let ?s1 = "emitCatchTest (VInst rs (LInt 32)) c tgt s"
    let ?regs = "regs(nextval s \<mapsto> tid c)"
    have s1: "scopebb ?s1 = nextbb s" "nextbb ?s1 = Suc (nextbb s)" "nextval ?s1 = Suc (nextval s)"
      "code ?s1 = code s @ [(scopebb s, ICall (nextval s) eh_typeid_for [VCast (VClassInfo c) (LPtr (LInt 8))]),
          (scopebb s, ICondBr (VICmpEQ (VInst rs (LInt 32)) (VInst (nextval s) (LInt 32))) tgt (nextbb s))]"
      by (simp_all add: emitCatchTest_eq)
    from walk_inline_code [OF Catch(4)]
    obtain W' where W': "code s5 = code ?s1 @ W'" by auto
    with Cons.prems(2) s1(4) have W: "W = [(scopebb s, ICall (nextval s) eh_typeid_for [VCast (VClassInfo c) (LPtr (LInt 8))]),
          (scopebb s, ICondBr (VICmpEQ (VInst rs (LInt 32)) (VInst (nextval s) (LInt 32))) tgt (nextbb s))] @ W'"
      by simp
    have ev: "eval ?regs (VICmpEQ (VInst rs (LInt 32)) (VInst (nextval s) (LInt 32)))
        = Some (if sel = tid c then 1 else 0)"
      using Cons.prems(7,8) by simp
    show ?thesis
    proof (cases "sel = tid c")
      case True
      from Cons.prems(5) Catch(3) have "block_instrs N tgt = []" by simp
      with True ev Catch(1,2,3) W show ?thesis
        by (simp add: after_def agrees_def stmts_run_def resume_calls_def map_filter_simps)
    next
      case False
      from Cons.prems(4,6) W have nb: "block_instrs N (nextbb s) = block_instrs (W' @ fin) (nextbb s)"
        by auto
      have ne: "block_instrs (W' @ fin) (nextbb s) \<noteq> []"
      proof (cases rits)
        case Nil
        with Catch(4) have "s5 = ?s1" by simp
        with W' s1 have "W' = []" "scopebb s5 = nextbb s" by simp_all
        with Cons.prems(3) show ?thesis by simp
      next
        case (Cons rit' rits')
        with Catch(4) have w: "walk toIR_inline (VInst rs (LInt 32)) (rit' # rits') ?s1 = Inr s5" by simp
        from w show ?thesis
        proof (cases rule: walk_inline_step)
          case (Finally body n ns)
          let ?s2 = "emit (IStmt body) (?s1\<lparr>infos := resize n (infos ?s1), nInfos := ns\<rparr>)"
          from walk_inline_code [OF Finally(3)] obtain W'' where "code s5 = code ?s2 @ W''" by auto
          with W' have "W' = (nextbb s, IStmt body) # W''" by (simp add: emit_def s1)
          then show ?thesis by simp
        next
          case (Catch c' tgt')
          let ?s2 = "emitCatchTest (VInst rs (LInt 32)) c' tgt' ?s1"
          from walk_inline_code [OF Catch(4)] obtain W'' where "code s5 = code ?s2 @ W''" by auto
          with W' have "W' = (nextbb s, ICall (Suc (nextval s)) eh_typeid_for
                [VCast (VClassInfo c') (LPtr (LInt 8))])
              # (nextbb s, ICondBr (VICmpEQ (VInst rs (LInt 32)) (VInst (Suc (nextval s)) (LInt 32)))
                  tgt' (Suc (nextbb s))) # W''"
            by (simp add: emitCatchTest_eq [of _ c' tgt'] s1)
          then show ?thesis by simp
        qed
      qed
      from Cons.prems(9) obtain k' where k: "k = Suc k'" by (cases k) auto
      have c': "\<forall>b\<ge>nextbb ?s1. block_instrs N b = block_instrs (W' @ fin) b"
        using Cons.prems(4,6) W by (auto simp: s1)
      have "agrees (exec k' N sel tid ?regs (block_instrs (W' @ fin) (scopebb ?s1)))
           (unwind_spec sel tid rits) ra"
        using Cons.prems(5-9) k
        by (intro Cons.IH [OF Catch(4) W' Cons.prems(3) c']) (auto simp: s1)
      with False ev Catch(1,2,3) W nb ne k show ?thesis
        by (auto simp: s1 agrees_after_other)
    qed
  qed
qed


lemma walk_inline_blocks:
  assumes "walk toIR_inline sel rits s = Inr s5" and "code s5 = code s @ W"
    and "scopebb s < nextbb s"
  shows "(\<forall>x\<in>set W. fst x = scopebb s \<or> nextbb s \<le> fst x)
     \<and> (scopebb s5 = scopebb s \<or> nextbb s \<le> scopebb s5)"
  using assms
proof (induction rits arbitrary: s W)
  case Nil
  then show ?case by simp
next
  case (Cons rit rits)
  from Cons.prems(1) show ?case
  proof (cases rule: walk_inline_step)
    case (Finally body n ns)
    let ?s1 = "emit (IStmt body) (s\<lparr>infos := resize n (infos s), nInfos := ns\<rparr>)"
    from walk_inline_code [OF Finally(3)]
    obtain W' where W': "code s5 = code ?s1 @ W'" by auto
    with Cons.prems(2) have W: "W = (scopebb s, IStmt body) # W'"
      by (simp add: emit_def)
    from Cons.IH [OF Finally(3) W'] Cons.prems(3) W show ?thesis
      by (simp add: emit_def)
  next
    case (Catch c tgt)
    let ?s1 = "emitCatchTest sel c tgt s"
    from walk_inline_code [OF Catch(4)]
    obtain W' where W': "code s5 = code ?s1 @ W'" by auto
    with Cons.prems(2) have W: "W = [(scopebb s, ICall (nextval s) eh_typeid_for [VCast (VClassInfo c) (LPtr (LInt 8))]),
          (scopebb s, ICondBr (VICmpEQ sel (VInst (nextval s) (LInt 32))) tgt (nextbb s))] @ W'"
      by (simp add: emitCatchTest_eq)
    have "scopebb ?s1 < nextbb ?s1" by (simp add: emitCatchTest_eq)
    from Cons.IH [OF Catch(4) W' this] W show ?thesis
      by (auto simp: emitCatchTest_eq)
  qed
qed

lemma landing_pad_dispatch:
  assumes "constructLandingPad toIR_inline inBB s = Inr s'"
    and "inBB < nextbb s"
    and "\<forall>it\<in>set (infos s). \<forall>t. target it = Some t \<longrightarrow> t < nextbb s \<and> t \<noteq> inBB"
    and "length (infos s) \<le> k"
  shows "agrees (dispatch k (landing_pad_code s (Inr s')) sel tid inBB)
           (unwind_spec sel tid (rev (infos s))) [VInst (nextval s) (LPtr (LInt 8))]"
proof -
  let ?ehp = "VInst (nextval s) (LPtr (LInt 8))"
  from assms(1) obtain hasCatch args s5 where
    sa: "selectorargs (irStruct s) (infos s) ?ehp = Inr (hasCatch, args)"
    and w: "walk toIR_inline (VInst (Suc (nextval s)) (LInt 32)) (rev (infos s))
       (before_walk s inBB hasCatch args) = Inr s5"
    and s': "s' = after_walk s s5"
    by (rule constructLandingPad_cases)
  let ?B = "before_walk s inBB hasCatch args"
  let ?P = "(inBB, ICall (nextval s) eh_exception []) # store_exception s hasCatch inBB
         @ [(inBB, ICall (Suc (nextval s)) eh_selector args)]"
  let ?fin = "[(scopebb s5, ICall (nextval s5) (RuntimeFn ''_d_eh_resume_unwind'') [?ehp]),
           (scopebb s5, IUnreachable)]"
  have B: "scopebb ?B = inBB" "nextbb ?B = nextbb s" "nextval ?B = Suc (Suc (nextval s))"
    "code ?B = code s @ ?P"
    by (simp_all add: before_walk_def)
  from walk_inline_code [OF w] obtain W where W: "code s5 = code ?B @ W" by auto
  let ?N = "?P @ W @ ?fin"
  have N: "landing_pad_code s (Inr s') = ?N"
    by (simp add: landing_pad_code_def s' after_walk_def W B)
  have sb: "scopebb ?B < nextbb ?B" using assms(2) by (simp add: B)
  note blocks = walk_inline_blocks [OF w W sb]
  have st: "store_exception s hasCatch inBB = []
     \<or> (\<exists>v p. store_exception s hasCatch inBB = [(inBB, IStore v p)])"
    by (simp add: store_exception_def split: option.splits)
  have c: "\<forall>b\<ge>nextbb ?B. block_instrs ?N b = block_instrs (W @ ?fin) b"
    using assms(2) st by (auto simp: B)
  have d: "\<forall>it\<in>set (rev (infos s)). \<forall>t. target it = Some t \<longrightarrow> block_instrs ?N t = []"
  proof (intro ballI allI impI)
    fix it t assume "it \<in> set (rev (infos s))" "target it = Some t"
    with assms(3) have t: "t < nextbb s" "t \<noteq> inBB" by auto
    from blocks t have 1: "block_instrs W t = []"
      by (auto simp: block_instrs_def B filter_empty_conv)
    from blocks t have 2: "block_instrs ?fin t = []" by (auto simp: B)
    from st t have 3: "block_instrs ?P t = []" by auto
    show "block_instrs ?N t = []"
      unfolding block_instrs_append [of ?P] block_instrs_append [of W] 1 2 3 by simp
  qed
  let ?regs = "((\<lambda>r. None)(nextval s := None))(Suc (nextval s) \<mapsto> sel)"
  have "agrees (exec k ?N sel tid ?regs (block_instrs (W @ ?fin) (scopebb ?B)))
           (unwind_spec sel tid (rev (infos s))) [?ehp]"
    using assms(4)
    by (intro walk_exec [OF w W refl c d sb]) (simp_all add: B)
  then have "agrees (exec k ?N sel tid (\<lambda>r. None) (block_instrs ?N inBB))
           (unwind_spec sel tid (rev (infos s))) [?ehp]"
    using st by (auto simp: B agrees_after_other)
  then show ?thesis by (simp only: N dispatch_def)
qed

lemma catch_classes_Cons:
  "catch_classes (it # is) =
     (case finallyBody it of Some b \<Rightarrow> catch_classes is
      | None \<Rightarrow> (case catchType it of None \<Rightarrow> catch_classes is | Some c \<Rightarrow> c # catch_classes is))"
  by (simp add: catch_classes_def map_filter_simps split: option.splits)

lemma catch_classes_append: "catch_classes (xs @ ys) = catch_classes xs @ catch_classes ys"
  by (simp add: catch_classes_def map_filter_def)

lemma catch_classes_rev: "catch_classes (rev xs) = rev (catch_classes xs)"
  by (simp add: catch_classes_def map_filter_def rev_map rev_filter)

lemma unwind_spec_no_match:
  "\<forall>c\<in>set (catch_classes rits). tid c \<noteq> sel \<Longrightarrow> snd (unwind_spec sel tid rits) = None"
  by (induction rits) (auto simp: catch_classes_Cons split: option.splits)

lemma resume_calls_append: "resume_calls (xs @ ys) = resume_calls xs @ resume_calls ys"
  by (simp add: resume_calls_def map_filter_def)

lemma walk_inline_no_resume:
  assumes "walk toIR_inline sel rits s = Inr s5" and "code s5 = code s @ W"
  shows "resume_calls (map snd W) = []"
  using assms
proof (induction rits arbitrary: s W)
  case Nil
  then show ?case by (simp add: resume_calls_def map_filter_simps)
next
  case (Cons rit rits)
  from Cons.prems(1) show ?case
  proof (cases rule: walk_inline_step)
    case (Finally body n ns)
    let ?s1 = "emit (IStmt body) (s\<lparr>infos := resize n (infos s), nInfos := ns\<rparr>)"
    from walk_inline_code [OF Finally(3)]
    obtain W' where W': "code s5 = code ?s1 @ W'" by auto
    with Cons.prems(2) have W: "W = (scopebb s, IStmt body) # W'"
      by (simp add: emit_def)
    from Cons.IH [OF Finally(3) W'] W show ?thesis
      by (simp add: resume_calls_def map_filter_simps)
  next
    case (Catch c tgt)
    let ?s1 = "emitCatchTest sel c tgt s"
    from walk_inline_code [OF Catch(4)]
    obtain W' where W': "code s5 = code ?s1 @ W'" by auto
    with Cons.prems(2) have W: "W = [(scopebb s, ICall (nextval s) eh_typeid_for [VCast (VClassInfo c) (LPtr (LInt 8))]),
          (scopebb s, ICondBr (VICmpEQ sel (VInst (nextval s) (LInt 32))) tgt (nextbb s))] @ W'"
      by (simp add: emitCatchTest_eq)
    from Cons.IH [OF Catch(4) W'] W show ?thesis
      by (simp add: resume_calls_def map_filter_simps)
  qed
qed

lemma landing_pad_code_shape:
  assumes "constructLandingPad toIR_inline inBB s = Inr s'"
  shows "\<exists>pre r b. landing_pad_code s (Inr s') =
           (inBB, ICall (nextval s) eh_exception []) # pre
             @ [(b, ICall r (RuntimeFn ''_d_eh_resume_unwind'') [VInst (nextval s) (LPtr (LInt 8))]),
                (b, IUnreachable)]
         \<and> resume_calls (map snd pre) = []"
proof -
  let ?ehp = "VInst (nextval s) (LPtr (LInt 8))"
  from assms obtain hasCatch args s5 where
    w: "walk toIR_inline (VInst (Suc (nextval s)) (LInt 32)) (rev (infos s))
       (before_walk s inBB hasCatch args) = Inr s5"
    and s': "s' = after_walk s s5"
    by (rule constructLandingPad_cases)
  let ?B = "before_walk s inBB hasCatch args"
  from walk_inline_code [OF w] obtain W where W: "code s5 = code ?B @ W" by auto
  let ?pre = "store_exception s hasCatch inBB
         @ [(inBB, ICall (Suc (nextval s)) eh_selector args)] @ W"
  have "resume_calls (map snd ?pre) = []"
    using walk_inline_no_resume [OF w W]
    by (simp add: resume_calls_append store_exception_def resume_calls_def map_filter_simps
        split: option.splits)
  moreover have "landing_pad_code s (Inr s') =
           (inBB, ICall (nextval s) eh_exception []) # ?pre
             @ [(scopebb s5, ICall (nextval s5) (RuntimeFn ''_d_eh_resume_unwind'') [?ehp]),
                (scopebb s5, IUnreachable)]"
    by (simp add: landing_pad_code_def s' after_walk_def W before_walk_def)
  ultimately show ?thesis by blast
qed

lemma resume_of_Some:
  "resume_of i = Some ra \<Longrightarrow> \<exists>r. i = ICall r (RuntimeFn ''_d_eh_resume_unwind'') ra"
  by (cases i rule: resume_of.cases) (auto split: if_splits)

lemma push_cases:
  assumes "push toIR inBB s = Inr s'"
  obtains s2 where "constructLandingPad toIR inBB (pushed s) = Inr s2"
    "s' = s2\<lparr>padBBs := inBB # padBBs s2\<rparr>"
  using assms
  by (auto simp: push_def pushed_def bind_err_def Let_def split: sum.splits)

lemma push_landing_pad_code:
  assumes "push toIR inBB s = Inr s'" and "constructLandingPad toIR inBB (pushed s) = Inr s2"
  shows "landing_pad_code s (Inr s') = landing_pad_code (pushed s) (Inr s2)"
  using assms
  by (auto simp: push_def pushed_def bind_err_def Let_def landing_pad_code_def split: sum.splits)

lemma walk_finally_last:
  assumes "infos s1 = outer @ [IRLandingPadInfo_Finally f]" and "nInfos s1 = length outer # ns"
  shows "walk toIR eh_sel (rev (infos s1)) s1
     = walk toIR eh_sel (rev outer) (toIR f (s1\<lparr>infos := outer, nInfos := ns\<rparr>))"
  using assms by (simp add: IRLandingPadInfo_Finally_def resize_def)

lemma getExceptionStorage_staged:
  "unpushed_infos (snd (getExceptionStorage s)) = unpushed_infos s
   \<and> nextbb (snd (getExceptionStorage s)) = nextbb s"
  by (simp add: getExceptionStorage_def DtoAlloca_def split: option.splits)

lemma DtoDeclarationExp_staged:
  "unpushed_infos (DtoDeclarationExp v s) = unpushed_infos s
   \<and> nextbb (DtoDeclarationExp v s) = nextbb s"
  by (simp add: DtoDeclarationExp_def DtoAlloca_def split: option.splits)

lemma assignCatchVar_staged:
  "assignCatchVar c s = Inr s' \<Longrightarrow>
     unpushed_infos s' = unpushed_infos s \<and> nextbb s' = nextbb s"
  by (auto simp: assignCatchVar_def shareCatchStorage_def copyException_def bind_err_def Let_def
      split_def DtoLoad_def DtoStore_def emit_def
      getExceptionStorage_staged DtoDeclarationExp_staged
      split: option.splits if_splits sum.splits)

lemma isClassHandle_Some: "isClassHandle t = Some c \<longleftrightarrow> t = TClass c"
  by (cases t) auto

lemma addCatch_inline:
  assumes "addCatch toIR_inline c e s = Inr s1"
  shows "unpushed_infos s1 = catch_entries [c] (nextbb s) @ unpushed_infos s
     \<and> infos s1 = infos s \<and> nextbb s1 = Suc (nextbb s)"
proof -
  from assms obtain s3 cd where
    a: "assignCatchVar c (s\<lparr>nextbb := Suc (nextbb s), scopebb := nextbb s, scopeend := e\<rparr>) = Inr s3"
    and ct: "ctype c = Some (TClass cd)"
    and r: "unpushed_infos s1 = \<lparr>target = Some (nextbb s), finallyBody = None, catchType = Some cd\<rparr>
          # unpushed_infos s3" "nextbb s1 = nextbb s3"
    by (auto simp: addCatch_def IRLandingPadInfo_Catch_def bind_err_def Let_def split_def
        BasicBlock_Create_def emit_def toIR_inline_def isClassHandle_Some
        split: sum.splits option.splits if_splits)
  from addCatch_scopes [OF keeps_scopes_inline assms] assignCatchVar_staged [OF a] ct r
  show ?thesis by simp
qed

lemma run_addCatches:
  "run toIR_inline (map (\<lambda>c. AddCatch c e) cs) s = Inr s1 \<Longrightarrow>
     unpushed_infos s1 = rev (catch_entries cs (nextbb s)) @ unpushed_infos s
     \<and> infos s1 = infos s \<and> nextbb s1 = nextbb s + length cs"
proof (induction cs arbitrary: s)
  case Nil
  then show ?case by simp
next
  case (Cons c cs)
  from Cons.prems obtain s2 where a: "addCatch toIR_inline c e s = Inr s2"
    and r: "run toIR_inline (map (\<lambda>c. AddCatch c e) cs) s2 = Inr s1"
    by (auto simp: bind_err_def split: sum.splits)
  from Cons.IH [OF r] addCatch_inline [OF a] show ?case by simp
qed

lemma catch_entries_length [simp]: "length (catch_entries cs n) = length cs"
  by (induction cs arbitrary: n) auto

lemma catch_entries_targets:
  "it \<in> set (catch_entries cs n) \<Longrightarrow> target it = Some t \<Longrightarrow> n \<le> t \<and> t < n + length cs"
  by (induction cs arbitrary: n) (fastforce)+

lemma try_catch_dispatch:
  assumes "unpushed_infos s = []"
    and "run toIR_inline (map (\<lambda>c. AddCatch c endbb) cs) s = Inr s1"
    and "push toIR_inline inBB s1 = Inr s'"
    and "inBB < nextbb s"
    and "\<forall>it\<in>set (infos s). \<forall>t. target it = Some t \<longrightarrow> t < nextbb s \<and> t \<noteq> inBB"
    and "length (infos s) + length cs \<le> k"
  shows "\<exists>ehp. agrees (dispatch k (landing_pad_code s1 (Inr s')) sel tid inBB)
           (unwind_spec sel tid (catch_entries cs (nextbb s) @ rev (infos s))) [ehp]"
proof -
  note r = run_addCatches [OF assms(2)]
  from assms(3) obtain s2 where c: "constructLandingPad toIR_inline inBB (pushed s1) = Inr s2"
    by (rule push_cases)
  have i: "infos (pushed s1) = infos s @ rev (catch_entries cs (nextbb s))"
    using r assms(1) by (simp add: pushed_def)
  have t: "\<forall>it\<in>set (infos (pushed s1)). \<forall>t. target it = Some t \<longrightarrow>
       t < nextbb (pushed s1) \<and> t \<noteq> inBB"
    using assms(1,4,5) r by (auto simp: i pushed_def dest!: catch_entries_targets)
  have "agrees (dispatch k (landing_pad_code (pushed s1) (Inr s2)) sel tid inBB)
           (unwind_spec sel tid (rev (infos (pushed s1)))) [VInst (nextval (pushed s1)) (LPtr (LInt 8))]"
    using assms(4,6) r
    by (intro landing_pad_dispatch [OF c _ t]) (simp_all add: i, simp add: pushed_def)
  with push_landing_pad_code [OF assms(3) c] show ?thesis
    by (auto simp: i)
qed


subsection \<open>What the generated dispatch does\<close>

text \<open>
  Straight-line handlers. A try statement with the catch clauses \<open>cs\<close> is lowered from a
  state \<open>s\<close> in which nothing is staged: one \<open>addCatch\<close> per clause, in the order of
  declaration, then \<open>push\<close>. When no handler contains a try statement, the landing pad
  built by the push behaves, for any selector value, as a scan of the clauses of this try
  in their order of declaration, followed by the entries of the enclosing try statements,
  the most recently pushed first: the bodies of the finally entries passed are run,
  control leaves for the target of the first catch whose type id is the selector, and
  otherwise the run ends in the unreachable after the resume call.
\<close>

lemma dispatch_order:
  assumes "unpushed_infos s = []"
    and "run toIR_inline (map (\<lambda>c. AddCatch c endbb) cs) s = Inr s1"
    and "push toIR_inline inBB s1 = Inr s'"
    and "inBB < nextbb s"
    and "\<forall>it\<in>set (infos s). \<forall>t. target it = Some t \<longrightarrow> t < nextbb s \<and> t \<noteq> inBB"
    and "length (infos s) + length cs \<le> k"
  shows "stmts_run (fst (dispatch k (landing_pad_code s1 (Inr s')) sel tid inBB))
       = fst (unwind_spec sel tid (catch_entries cs (nextbb s) @ rev (infos s)))
     \<and> (\<forall>t. snd (unwind_spec sel tid (catch_entries cs (nextbb s) @ rev (infos s))) = Some t
          \<longrightarrow> snd (dispatch k (landing_pad_code s1 (Inr s')) sel tid inBB) = Leaves t)
     \<and> (snd (unwind_spec sel tid (catch_entries cs (nextbb s) @ rev (infos s))) = None
          \<longrightarrow> snd (dispatch k (landing_pad_code s1 (Inr s')) sel tid inBB) = Unreachable)
     \<and> (\<forall>cA cB cC A B C.
          cs = [cA, cB, cC] \<and> ctype cA = Some (TClass A) \<and> ctype cB = Some (TClass B)
          \<and> ctype cC = Some (TClass C) \<and> sel = tid B \<and> tid A \<noteq> tid B
          \<longrightarrow> map target (catch_entries cs (nextbb s))
                = [Some (nextbb s), Some (Suc (nextbb s)), Some (Suc (Suc (nextbb s)))]
              \<and> snd (dispatch k (landing_pad_code s1 (Inr s')) sel tid inBB)
                = Leaves (Suc (nextbb s)))"
proof -
  let ?D = "dispatch k (landing_pad_code s1 (Inr s')) sel tid inBB"
  let ?U = "unwind_spec sel tid (catch_entries cs (nextbb s) @ rev (infos s))"
  from try_catch_dispatch [OF assms, of sel tid] obtain ehp where a: "agrees ?D ?U [ehp]" ..
  then have 1: "stmts_run (fst ?D) = fst ?U"
    and 2: "\<forall>t. snd ?U = Some t \<longrightarrow> snd ?D = Leaves t"
    and 3: "snd ?U = None \<longrightarrow> snd ?D = Unreachable"
    by (auto simp: agrees_def)
  have 4: "\<forall>cA cB cC A B C.
          cs = [cA, cB, cC] \<and> ctype cA = Some (TClass A) \<and> ctype cB = Some (TClass B)
          \<and> ctype cC = Some (TClass C) \<and> sel = tid B \<and> tid A \<noteq> tid B
          \<longrightarrow> map target (catch_entries cs (nextbb s))
                = [Some (nextbb s), Some (Suc (nextbb s)), Some (Suc (Suc (nextbb s)))]
              \<and> snd ?D = Leaves (Suc (nextbb s))"
  proof (intro allI impI)
    fix cA cB cC A B C
    assume h: "cs = [cA, cB, cC] \<and> ctype cA = Some (TClass A) \<and> ctype cB = Some (TClass B)
          \<and> ctype cC = Some (TClass C) \<and> sel = tid B \<and> tid A \<noteq> tid B"
    then have "snd ?U = Some (Suc (nextbb s))" by auto
    with 2 h show "map target (catch_entries cs (nextbb s))
                = [Some (nextbb s), Some (Suc (nextbb s)), Some (Suc (Suc (nextbb s)))]
              \<and> snd ?D = Leaves (Suc (nextbb s))" by simp
  qed
  from 1 2 3 4 show ?thesis by blast
qed

lemma dispatch_order_example:
  "unpushed_infos example_state = [] \<and> 2 < nextbb example_state
   \<and> (\<exists>s1 s'. run toIR_inline (map (\<lambda>c. AddCatch c 1)
          [example_catch 3 20, example_catch 4 21, example_catch 5 22]) example_state = Inr s1
        \<and> push toIR_inline 2 s1 = Inr s'
        \<and> snd (dispatch 3 (landing_pad_code s1 (Inr s')) 4 int 2) = Leaves 11)"
proof -
  let ?cs = "[example_catch 3 20, example_catch 4 21, example_catch 5 22]"
  have e: "unpushed_infos example_state = []" "2 < nextbb example_state"
    "\<forall>it\<in>set (infos example_state). \<forall>t. target it = Some t \<longrightarrow> t < nextbb example_state \<and> t \<noteq> 2"
    "length (infos example_state) + length ?cs \<le> 3" "nextbb example_state = 10"
    by (simp_all add: example_state_def)
  have "\<exists>s1. run toIR_inline (map (\<lambda>c. AddCatch c 1) ?cs) example_state = Inr s1
      \<and> (\<exists>s'. push toIR_inline 2 s1 = Inr s')"
    by (simp add: lp_eval)
  then obtain s1 s' where r: "run toIR_inline (map (\<lambda>c. AddCatch c 1) ?cs) example_state = Inr s1"
    and p: "push toIR_inline 2 s1 = Inr s'" by blast
  have c: "?cs = [example_catch 3 20, example_catch 4 21, example_catch 5 22]
     \<and> ctype (example_catch 3 20) = Some (TClass 3)
     \<and> ctype (example_catch 4 21) = Some (TClass 4) \<and> ctype (example_catch 5 22) = Some (TClass 5)
     \<and> (4::int) = int 4 \<and> int 3 \<noteq> int 4"
    by (simp add: example_catch_def)
  from dispatch_order [OF e(1) r p e(2) e(3) e(4), of 4 int] c
  have "snd (dispatch 3 (landing_pad_code s1 (Inr s')) 4 int 2) = Leaves (Suc (nextbb example_state))"
    by blast
  with r p e show ?thesis by auto
qed


text \<open>
  The landing pad of the try-finally itself. A try with the finally body \<open>f\<close> is
  lowered directly inside a try whose catch of class \<open>c\<close> has the target \<open>tgt\<close>. Entered
  with the selector of \<open>c\<close>, the landing pad of the inner try runs \<open>f\<close> once and nothing
  else, calls no resume, and leaves for \<open>tgt\<close>. Here the top checkpoint is the finally's
  own, and the body of the finally is lowered in a state whose live handler list and
  checkpoint stack are those of the enclosing scope.
\<close>

lemma finally_replayed_before_outer_catch:
  assumes "infos s0 = [\<lparr>target = Some tgt, finallyBody = None, catchType = Some c\<rparr>]"
    and "unpushed_infos s0 = []"
    and "push toIR_inline inBB (addFinally f s0) = Inr s'"
    and "inBB < nextbb s0" and "tgt < nextbb s0" and "tgt \<noteq> inBB"
  shows "stmts_run (fst (dispatch 2 (landing_pad_code s0 (Inr s')) (tid c) tid inBB)) = [f]
     \<and> snd (dispatch 2 (landing_pad_code s0 (Inr s')) (tid c) tid inBB) = Leaves tgt
     \<and> resume_calls (fst (dispatch 2 (landing_pad_code s0 (Inr s')) (tid c) tid inBB)) = []
     \<and> (\<forall>toIR eh_sel s1 ns.
          infos s1 = infos s0 @ [IRLandingPadInfo_Finally f] \<and> nInfos s1 = length (infos s0) # ns
          \<longrightarrow> walk toIR eh_sel (rev (infos s1)) s1
              = walk toIR eh_sel (rev (infos s0)) (toIR f (s1\<lparr>infos := infos s0, nInfos := ns\<rparr>)))"
proof -
  let ?s = "addFinally f s0"
  from assms(3) obtain s2 where c: "constructLandingPad toIR_inline inBB (pushed ?s) = Inr s2"
    by (rule push_cases)
  have i: "infos (pushed ?s) = [\<lparr>target = Some tgt, finallyBody = None, catchType = Some c\<rparr>,
      IRLandingPadInfo_Finally f]"
    using assms(1,2) by (simp add: pushed_def addFinally_def)
  have lc: "landing_pad_code s0 (Inr s') = landing_pad_code (pushed ?s) (Inr s2)"
    using push_landing_pad_code [OF assms(3) c]
    by (simp add: landing_pad_code_def addFinally_def)
  have "agrees (dispatch 2 (landing_pad_code (pushed ?s) (Inr s2)) (tid c) tid inBB)
           (unwind_spec (tid c) tid (rev (infos (pushed ?s)))) [VInst (nextval (pushed ?s)) (LPtr (LInt 8))]"
    using assms(4-6) i
    by (intro landing_pad_dispatch [OF c]) (auto simp: pushed_def addFinally_def IRLandingPadInfo_Finally_def)
  then have "agrees (dispatch 2 (landing_pad_code s0 (Inr s')) (tid c) tid inBB) ([f], Some tgt)
      [VInst (nextval (pushed ?s)) (LPtr (LInt 8))]"
    by (simp add: i lc IRLandingPadInfo_Finally_def)
  then have "stmts_run (fst (dispatch 2 (landing_pad_code s0 (Inr s')) (tid c) tid inBB)) = [f]
     \<and> snd (dispatch 2 (landing_pad_code s0 (Inr s')) (tid c) tid inBB) = Leaves tgt
     \<and> resume_calls (fst (dispatch 2 (landing_pad_code s0 (Inr s')) (tid c) tid inBB)) = []"
    by (simp add: agrees_def)
  moreover have "\<forall>toIR eh_sel s1 ns.
          infos s1 = infos s0 @ [IRLandingPadInfo_Finally f] \<and> nInfos s1 = length (infos s0) # ns
          \<longrightarrow> walk toIR eh_sel (rev (infos s1)) s1
              = walk toIR eh_sel (rev (infos s0)) (toIR f (s1\<lparr>infos := infos s0, nInfos := ns\<rparr>))"
    using walk_finally_last by blast
  ultimately show ?thesis by blast
qed


lemma finally_replayed_before_outer_catch_example:
  "infos example_nested = [\<lparr>target = Some 3, finallyBody = None, catchType = Some 3\<rparr>]
   \<and> unpushed_infos example_nested = [] \<and> 4 < nextbb example_nested
   \<and> (\<exists>s'. push toIR_inline 4 (addFinally 7 example_nested) = Inr s'
        \<and> stmts_run (fst (dispatch 2 (landing_pad_code example_nested (Inr s')) (int 3) int 4)) = [7]
        \<and> snd (dispatch 2 (landing_pad_code example_nested (Inr s')) (int 3) int 4) = Leaves 3)"
proof -
  have e: "infos example_nested = [\<lparr>target = Some 3, finallyBody = None, catchType = Some 3\<rparr>]"
    "unpushed_infos example_nested = []" "4 < nextbb example_nested" "3 < nextbb example_nested"
    "(3::nat) \<noteq> 4"
    by (simp_all add: example_nested_def example_state_def)
  have "\<exists>s'. push toIR_inline 4 (addFinally 7 example_nested) = Inr s'"
    by (simp add: lp_eval example_nested_def)
  then obtain s' where p: "push toIR_inline 4 (addFinally 7 example_nested) = Inr s'" ..
  from finally_replayed_before_outer_catch [OF e(1) e(2) p e(3) e(4) e(5), of int] p e(1-3)
  show ?thesis by blast
qed


text \<open>
  C4. The code of every landing pad the constructor returns opens with the call that
  captures the exception pointer and closes with one call of the resume function on that
  very value, followed by an unreachable; no other resume call is emitted. Entered with a
  selector that is the type id of no catch in scope, the landing pad runs up to that
  resume call, which is the only one executed, and ends in the unreachable.
\<close>

theorem unmatched_exception_resumes:
  assumes "constructLandingPad toIR_inline inBB s = Inr s'"
    and "inBB < nextbb s"
    and "\<forall>it\<in>set (infos s). \<forall>t. target it = Some t \<longrightarrow> t < nextbb s \<and> t \<noteq> inBB"
    and "\<forall>c\<in>set (catch_classes (infos s)). tid c \<noteq> sel"
    and "length (infos s) \<le> k"
  shows "(\<exists>pre r b. landing_pad_code s (Inr s') =
           (inBB, ICall (nextval s) eh_exception []) # pre
             @ [(b, ICall r (RuntimeFn ''_d_eh_resume_unwind'') [VInst (nextval s) (LPtr (LInt 8))]),
                (b, IUnreachable)]
         \<and> resume_calls (map snd pre) = [])
     \<and> snd (dispatch k (landing_pad_code s (Inr s')) sel tid inBB) = Unreachable
     \<and> (\<exists>tr r. fst (dispatch k (landing_pad_code s (Inr s')) sel tid inBB) =
           tr @ [ICall r (RuntimeFn ''_d_eh_resume_unwind'') [VInst (nextval s) (LPtr (LInt 8))],
                 IUnreachable]
         \<and> resume_calls tr = [])"
proof -
  from assms(4) have "snd (unwind_spec sel tid (rev (infos s))) = None"
    by (intro unwind_spec_no_match) (simp add: catch_classes_rev)
  with landing_pad_dispatch [OF assms(1,2,3,5), of sel tid]
  have "snd (dispatch k (landing_pad_code s (Inr s')) sel tid inBB) = Unreachable"
    and "\<exists>pre i. fst (dispatch k (landing_pad_code s (Inr s')) sel tid inBB) = pre @ [i, IUnreachable]
        \<and> resume_of i = Some [VInst (nextval s) (LPtr (LInt 8))] \<and> resume_calls pre = []"
    by (simp_all add: agrees_def)
  with landing_pad_code_shape [OF assms(1)] show ?thesis
    by (auto dest!: resume_of_Some)
qed


theorem unmatched_exception_resumes_witness:
  "4 < nextbb (pushed (addFinally 7 example_nested))
   \<and> catch_classes (infos (pushed (addFinally 7 example_nested))) = [3]
   \<and> (\<exists>s'. constructLandingPad toIR_inline 4 (pushed (addFinally 7 example_nested)) = Inr s'
        \<and> snd (dispatch 2 (landing_pad_code (pushed (addFinally 7 example_nested)) (Inr s')) 99 int 4)
            = Unreachable)"
proof -
  let ?w = "pushed (addFinally 7 example_nested)"
  have e: "4 < nextbb ?w" "catch_classes (infos ?w) = [3]"
    "\<forall>it\<in>set (infos ?w). \<forall>t. target it = Some t \<longrightarrow> t < nextbb ?w \<and> t \<noteq> 4"
    "\<forall>c\<in>set (catch_classes (infos ?w)). int c \<noteq> 99" "length (infos ?w) \<le> 2"
    by (simp_all add: example_nested_def example_state_def pushed_def addFinally_def
        IRLandingPadInfo_Finally_def catch_classes_def map_filter_simps)
  have "\<exists>s'. constructLandingPad toIR_inline 4 ?w = Inr s'"
    by (simp add: lp_eval example_nested_def pushed_def)
  then obtain s' where c: "constructLandingPad toIR_inline 4 ?w = Inr s'" ..
  from unmatched_exception_resumes [OF c e(1) e(3) e(4) e(5)] c e(1,2)
  show ?thesis by blast
qed

subsection \<open>The exception storage\<close>

lemma strip_casts_CreateBitCast [simp]: "strip_casts (CreateBitCast v t) = strip_casts v"
  by (simp add: CreateBitCast_def)

lemma getExceptionStorage_None:
  "catch_var s = None \<Longrightarrow>
     getExceptionStorage s =
       (VInst (nextval s) (LPtr (LPtr (LStruct ClassDeclaration_object))),
        s\<lparr>allocas := allocas s @ [(nextval s, LPtr (LStruct ClassDeclaration_object), ''catchvar'')],
          nextval := Suc (nextval s),
          catch_var := Some (VInst (nextval s) (LPtr (LPtr (LStruct ClassDeclaration_object))))\<rparr>)"
  by (simp add: getExceptionStorage_def DtoAlloca_def)

lemma getExceptionStorage_Some:
  "catch_var s = Some v \<Longrightarrow> getExceptionStorage s = (v, s)"
  by (simp add: getExceptionStorage_def)

lemma getExceptionStorage_twice:
  "getExceptionStorage (snd (getExceptionStorage s)) = getExceptionStorage s"
  by (cases "catch_var s") (simp_all add: getExceptionStorage_None getExceptionStorage_Some)

lemma getExceptionStorage_catch_var:
  "catch_var (snd (getExceptionStorage s)) = Some (fst (getExceptionStorage s))"
  by (cases "catch_var s") (simp_all add: getExceptionStorage_None getExceptionStorage_Some)

lemma getExceptionStorage_inv:
  "storage_inv s \<Longrightarrow> storage_inv (snd (getExceptionStorage s))"
  by (cases "catch_var s")
    (simp_all add: getExceptionStorage_None getExceptionStorage_Some storage_inv_def
      catchvar_allocas_def)

lemma DtoDeclarationExp_inv:
  "storage_inv s \<Longrightarrow> storage_inv (DtoDeclarationExp v s)"
  by (auto simp: DtoDeclarationExp_def DtoAlloca_def storage_inv_def catchvar_allocas_def
      split: option.splits if_splits)

lemma storage_inv_cong:
  "allocas s' = allocas s \<Longrightarrow> catch_var s' = catch_var s \<Longrightarrow> storage_inv s' = storage_inv s"
  by (simp add: storage_inv_def catchvar_allocas_def)

lemma getExceptionStorage_irLocal [simp]:
  "irLocal (snd (getExceptionStorage s)) = irLocal s"
  by (simp add: getExceptionStorage_def DtoAlloca_def split: option.splits)

lemma shareCatchStorage_cases:
  assumes "shareCatchStorage v s = Inr s2"
  obtains (Nested) "nestedrefs_dim v \<noteq> 0" "s2 = s"
  | (Shared) "nestedrefs_dim v = 0" "irLocal s (vid v) = None"
      "s2 = (snd (getExceptionStorage s))\<lparr>irLocal := (irLocal s)
          (vid v \<mapsto> CreateBitCast (fst (getExceptionStorage s)) (LPtr (DtoType (vtype v))))\<rparr>"
  using assms
  by (auto simp: shareCatchStorage_def split_def Let_def getPtrToType_def
      split: if_splits option.splits)

lemma copyException_cases:
  assumes "copyException v s = Inr s'"
  obtains (Same) "irLocal s (vid v) = Some (fst (getExceptionStorage s))"
      "s' = snd (getExceptionStorage s)"
  | (Copy) l where "irLocal s (vid v) = Some l" "l \<noteq> fst (getExceptionStorage s)"
      "s' = (snd (getExceptionStorage s))\<lparr>
          nextval := Suc (nextval (snd (getExceptionStorage s))),
          code := code (snd (getExceptionStorage s)) @
            [(scopebb s, ILoad (nextval (snd (getExceptionStorage s))) (fst (getExceptionStorage s))),
             (scopebb s, IStore (CreateBitCast
                 (VInst (nextval (snd (getExceptionStorage s)))
                    (pointee (typeOf (fst (getExceptionStorage s)))))
                 (DtoType (vtype v))) l)]\<rparr>"
proof -
  have sb: "scopebb (snd (getExceptionStorage s)) = scopebb s"
    by (simp add: getExceptionStorage_def DtoAlloca_def split: option.splits)
  from assms show ?thesis
    by (auto simp: copyException_def split_def Let_def getExceptionStorage_twice DtoLoad_def
        DtoStore_def emit_def sb intro: Same Copy
        split: if_splits option.splits)
qed

lemma shareCatchStorage_inv:
  assumes "shareCatchStorage v s = Inr s'" and "storage_inv s"
  shows "storage_inv s'"
  using assms(1)
proof (cases rule: shareCatchStorage_cases)
  case Nested
  with assms(2) show ?thesis by simp
next
  case Shared
  with getExceptionStorage_inv [OF assms(2)] show ?thesis
    by (simp add: storage_inv_def catchvar_allocas_def)
qed

lemma copyException_inv:
  assumes "copyException v s = Inr s'" and "storage_inv s"
  shows "storage_inv s'"
  using assms(1)
proof (cases rule: copyException_cases)
  case Same
  with getExceptionStorage_inv [OF assms(2)] show ?thesis by simp
next
  case (Copy l)
  with getExceptionStorage_inv [OF assms(2)] show ?thesis
    by (simp add: storage_inv_def catchvar_allocas_def)
qed

lemma assignCatchVar_inv:
  assumes "assignCatchVar c s = Inr s'" and "storage_inv s"
  shows "storage_inv s'"
proof (cases "var c")
  case None
  with assms show ?thesis by (simp add: assignCatchVar_def)
next
  case (Some v)
  with assms(1) obtain s2 where 1: "shareCatchStorage v s = Inr s2"
    and 2: "copyException v (DtoDeclarationExp v s2) = Inr s'"
    by (auto simp: assignCatchVar_def bind_err_def split: sum.splits)
  from copyException_inv [OF 2 DtoDeclarationExp_inv [OF shareCatchStorage_inv [OF 1 assms(2)]]]
  show ?thesis .
qed

lemma addCatch_inline_inv:
  assumes "addCatch toIR_inline c e s = Inr s'" and "storage_inv s"
  shows "storage_inv s'"
proof -
  from assms(1) obtain s3 where
    a: "assignCatchVar c (s\<lparr>nextbb := Suc (nextbb s), scopebb := nextbb s, scopeend := e\<rparr>) = Inr s3"
    and r: "allocas s' = allocas s3 \<and> catch_var s' = catch_var s3"
    by (auto simp: addCatch_def IRLandingPadInfo_Catch_def bind_err_def Let_def split_def
        BasicBlock_Create_def emit_def toIR_inline_def
        split: sum.splits option.splits if_splits)
  from assms(2) have "storage_inv (s\<lparr>nextbb := Suc (nextbb s), scopebb := nextbb s, scopeend := e\<rparr>)"
    by (simp add: storage_inv_def catchvar_allocas_def)
  from assignCatchVar_inv [OF a this] r show ?thesis
    by (simp add: storage_inv_def catchvar_allocas_def)
qed

lemma walk_inline_storage:
  "walk toIR_inline sel rits s = Inr s' \<Longrightarrow> allocas s' = allocas s \<and> catch_var s' = catch_var s"
proof (induction rits arbitrary: s)
  case Nil
  then show ?case by simp
next
  case (Cons rit rits)
  from Cons.prems show ?case
  proof (cases rule: walk_inline_step)
    case (Finally body n ns)
    from Cons.IH [OF Finally(3)] show ?thesis by (simp add: emit_def)
  next
    case (Catch c tgt)
    from Cons.IH [OF Catch(4)] show ?thesis by (simp add: emitCatchTest_eq)
  qed
qed

lemma push_inline_inv:
  assumes "push toIR_inline b s = Inr s'" and "storage_inv s"
  shows "storage_inv s'"
proof -
  from assms(1) obtain s2 where c: "constructLandingPad toIR_inline b (pushed s) = Inr s2"
    and s': "s' = s2\<lparr>padBBs := b # padBBs s2\<rparr>" by (rule push_cases)
  from c obtain hasCatch args s5 where
    w: "walk toIR_inline (VInst (Suc (nextval (pushed s))) (LInt 32)) (rev (infos (pushed s)))
       (before_walk (pushed s) b hasCatch args) = Inr s5"
    and s2: "s2 = after_walk (pushed s) s5"
    by (rule constructLandingPad_cases)
  from walk_inline_storage [OF w] s' s2 assms(2) show ?thesis
    by (simp add: storage_inv_def catchvar_allocas_def after_walk_def before_walk_def pushed_def)
qed

lemma step_inline_inv:
  assumes "step toIR_inline x s = Inr s'" and "storage_inv s"
  shows "storage_inv s'"
proof (cases x)
  case (AddCatch c e)
  with assms show ?thesis by (auto intro: addCatch_inline_inv)
next
  case (AddFinally f)
  with assms show ?thesis by (auto simp: addFinally_def storage_inv_def catchvar_allocas_def)
next
  case (Push b)
  with assms show ?thesis by (auto intro: push_inline_inv)
next
  case Pop
  with assms show ?thesis
    by (auto simp: pop_def storage_inv_def catchvar_allocas_def split: list.splits)
qed

lemma run_inline_inv:
  "run toIR_inline xs s = Inr s' \<Longrightarrow> storage_inv s \<Longrightarrow> storage_inv s'"
proof (induction xs arbitrary: s)
  case Nil
  then show ?case by simp
next
  case (Cons x xs)
  from Cons.prems(1) obtain s1 where s1: "step toIR_inline x s = Inr s1"
    and r: "run toIR_inline xs s1 = Inr s'"
    by (auto simp: bind_err_def split: sum.splits)
  from Cons.IH [OF r step_inline_inv [OF s1 Cons.prems(2)]] show ?case .
qed


lemmas storage_defs = assignCatchVar_def shareCatchStorage_def copyException_def
  DtoDeclarationExp_def getExceptionStorage_def DtoAlloca_def DtoLoad_def DtoStore_def emit_def
  bind_err_def Let_def split_def getPtrToType_def var_allocas_def

lemma assignCatchVar_shared:
  assumes "assignCatchVar c s = Inr s3" and "var c = Some v" and "nestedrefs_dim v = 0"
  shows "\<exists>cv. catch_var s3 = Some cv
       \<and> irLocal s3 (vid v) = Some (CreateBitCast cv (LPtr (DtoType (vtype v))))
       \<and> var_allocas s3 = var_allocas s
       \<and> (catch_var s \<noteq> None \<longrightarrow> catch_var s3 = catch_var s \<and> allocas s3 = allocas s)"
  using assms
  by (cases "catch_var s") (auto simp: storage_defs split: option.splits if_splits)

lemma assignCatchVar_nested:
  assumes "assignCatchVar c s = Inr s3" and "var c = Some v" and "nestedrefs_dim v \<noteq> 0"
    and "irLocal s (vid v) = None" and "\<forall>t. catch_var s \<noteq> Some (VInst (nextval s) t)"
  shows "\<exists>cv r. catch_var s3 = Some cv
       \<and> irLocal s3 (vid v) = Some (VInst (nextval s) (LPtr (DtoType (vtype v))))
       \<and> VInst (nextval s) (LPtr (DtoType (vtype v))) \<noteq> cv
       \<and> var_allocas s3 = var_allocas s @ [(nextval s, DtoType (vtype v), ''var'')]
       \<and> (catch_var s \<noteq> None \<longrightarrow> catch_var s3 = catch_var s)
       \<and> code s3 = code s @
           [(scopebb s, ILoad r cv),
            (scopebb s, IStore (CreateBitCast (VInst r (pointee (typeOf cv))) (DtoType (vtype v)))
               (VInst (nextval s) (LPtr (DtoType (vtype v)))))]"
  using assms
  by (cases "catch_var s") (auto simp: storage_defs split: option.splits if_splits)

lemma addCatch_inline_cases:
  assumes "addCatch toIR_inline c e s = Inr s1"
  obtains s3 rest where
    "assignCatchVar c (s\<lparr>nextbb := Suc (nextbb s), scopebb := nextbb s, scopeend := e\<rparr>) = Inr s3"
    "irLocal s1 = irLocal s3" "catch_var s1 = catch_var s3" "allocas s1 = allocas s3"
    "code s1 = code s3 @ rest"
  using assms
  by (auto simp: addCatch_def IRLandingPadInfo_Catch_def bind_err_def Let_def split_def
        BasicBlock_Create_def emit_def toIR_inline_def
        split: sum.splits option.splits if_splits)


lemma classinfos_hasCatch:
  "classinfos st is (hf, hc, args) = Inr (hf', hc', args') \<Longrightarrow>
     hc' = (hc \<or> catch_classes is \<noteq> [])"
proof (induction "is" arbitrary: hf hc args)
  case Nil
  then show ?case by (simp add: catch_classes_def map_filter_simps)
next
  case (Cons it rest)
  show ?case
  proof (cases "finallyBody it")
    case (Some b)
    with Cons.prems have "classinfos st rest (True, hc, args) = Inr (hf', hc', args')" by simp
    from Cons.IH [OF this] Some show ?thesis by (simp add: catch_classes_Cons)
  next
    case None
    with Cons.prems obtain c where c: "catchType it = Some c"
      and r: "classinfos st rest (hf, True, VClassInfo c # args) = Inr (hf', hc', args')"
      by (auto split: option.splits if_splits)
    from Cons.IH [OF r] None c show ?thesis by (simp add: catch_classes_Cons)
  qed
qed

lemma landing_pad_store:
  assumes "constructLandingPad toIR_inline inBB s = Inr s'" and "catch_var s = Some cv"
    and "catch_classes (infos s) \<noteq> []"
  shows "take 2 (landing_pad_code s (Inr s')) =
     [(inBB, ICall (nextval s) eh_exception []),
      (inBB, IStore (VCast (VInst (nextval s) (LPtr (LInt 8)))
         (LPtr (LStruct ClassDeclaration_object))) cv)]"
proof -
  from assms(1) obtain hasCatch args s5 where
    sa: "selectorargs (irStruct s) (infos s) (VInst (nextval s) (LPtr (LInt 8))) = Inr (hasCatch, args)"
    and w: "walk toIR_inline (VInst (Suc (nextval s)) (LInt 32)) (rev (infos s))
       (before_walk s inBB hasCatch args) = Inr s5"
    and s': "s' = after_walk s s5"
    by (rule constructLandingPad_cases)
  from sa assms(3) have hasCatch
    by (auto simp: selectorargs_def bind_err_def split: sum.splits prod.splits
        dest!: classinfos_hasCatch)
  from walk_inline_code [OF w] obtain W where W: "code s5 = code (before_walk s inBB hasCatch args) @ W"
    by auto
  with s' \<open>hasCatch\<close> assms(2) show ?thesis
    by (simp add: landing_pad_code_def after_walk_def before_walk_def store_exception_def)
qed

text \<open>
  C7. The accessor of the exception storage allocates the shared slot when there is none
  and returns the existing one otherwise, so a second call allocates nothing; in a function
  that starts without a slot, any sequence of \<open>addCatch\<close>, \<open>addFinally\<close>, \<open>push\<close> and
  \<open>pop\<close> leaves at most one such alloca. A catch clause whose variable has no nested
  reference gets as storage the shared slot under a pointer cast, and no alloca of its own.
  A catch clause whose variable has nested references and no storage yet gets a new alloca,
  which is not the shared slot, and the load of the shared slot and the store into the new
  slot open its target block. The landing pad stores the captured exception pointer into
  the shared slot right after capturing it, before any catch target is entered.
\<close>

theorem exception_storage_slot:
  "(catch_var s = None \<longrightarrow>
      getExceptionStorage s =
        (VInst (nextval s) (LPtr (LPtr (LStruct ClassDeclaration_object))),
         s\<lparr>allocas := allocas s @ [(nextval s, LPtr (LStruct ClassDeclaration_object), ''catchvar'')],
           nextval := Suc (nextval s),
           catch_var := Some (VInst (nextval s) (LPtr (LPtr (LStruct ClassDeclaration_object))))\<rparr>))
   \<and> (\<forall>cv. catch_var s = Some cv \<longrightarrow> getExceptionStorage s = (cv, s))
   \<and> getExceptionStorage (snd (getExceptionStorage s)) = getExceptionStorage s
   \<and> (catch_var s = None \<and> catchvar_allocas s = [] \<and> run toIR_inline ops s = Inr s'
        \<longrightarrow> length (catchvar_allocas s') \<le> 1)
   \<and> (addCatch toIR_inline c e s = Inr s1 \<and> var c = Some v \<and> nestedrefs_dim v = 0
        \<longrightarrow> (\<exists>cv l. catch_var s1 = Some cv \<and> irLocal s1 (vid v) = Some l
                \<and> l = CreateBitCast cv (LPtr (DtoType (vtype v)))
                \<and> strip_casts l = strip_casts cv
                \<and> var_allocas s1 = var_allocas s
                \<and> (catch_var s \<noteq> None \<longrightarrow> catch_var s1 = catch_var s \<and> allocas s1 = allocas s)))
   \<and> (addCatch toIR_inline c e s = Inr s1 \<and> var c = Some v \<and> nestedrefs_dim v \<noteq> 0
        \<and> irLocal s (vid v) = None \<and> (\<forall>t. catch_var s \<noteq> Some (VInst (nextval s) t))
        \<longrightarrow> (\<exists>cv r rest. catch_var s1 = Some cv
                \<and> irLocal s1 (vid v) = Some (VInst (nextval s) (LPtr (DtoType (vtype v))))
                \<and> VInst (nextval s) (LPtr (DtoType (vtype v))) \<noteq> cv
                \<and> var_allocas s1 = var_allocas s @ [(nextval s, DtoType (vtype v), ''var'')]
                \<and> (catch_var s \<noteq> None \<longrightarrow> catch_var s1 = catch_var s)
                \<and> code s1 = code s @
                    [(nextbb s, ILoad r cv),
                     (nextbb s, IStore (CreateBitCast (VInst r (pointee (typeOf cv)))
                          (DtoType (vtype v)))
                        (VInst (nextval s) (LPtr (DtoType (vtype v)))))] @ rest))
   \<and> (constructLandingPad toIR_inline inBB s = Inr s2 \<and> catch_var s = Some cv0
        \<and> catch_classes (infos s) \<noteq> []
        \<longrightarrow> take 2 (landing_pad_code s (Inr s2)) =
             [(inBB, ICall (nextval s) eh_exception []),
              (inBB, IStore (VCast (VInst (nextval s) (LPtr (LInt 8)))
                 (LPtr (LStruct ClassDeclaration_object))) cv0)])"
proof -
  have 4: "catch_var s = None \<and> catchvar_allocas s = [] \<and> run toIR_inline ops s = Inr s'
        \<longrightarrow> length (catchvar_allocas s') \<le> 1"
  proof
    assume h: "catch_var s = None \<and> catchvar_allocas s = [] \<and> run toIR_inline ops s = Inr s'"
    then have "storage_inv s" by (simp add: storage_inv_def)
    with h have "storage_inv s'" by (auto intro: run_inline_inv)
    then show "length (catchvar_allocas s') \<le> 1" by (simp add: storage_inv_def split: if_splits)
  qed
  have 5: "addCatch toIR_inline c e s = Inr s1 \<and> var c = Some v \<and> nestedrefs_dim v = 0
        \<longrightarrow> (\<exists>cv l. catch_var s1 = Some cv \<and> irLocal s1 (vid v) = Some l
                \<and> l = CreateBitCast cv (LPtr (DtoType (vtype v)))
                \<and> strip_casts l = strip_casts cv
                \<and> var_allocas s1 = var_allocas s
                \<and> (catch_var s \<noteq> None \<longrightarrow> catch_var s1 = catch_var s \<and> allocas s1 = allocas s))"
  proof
    assume h: "addCatch toIR_inline c e s = Inr s1 \<and> var c = Some v \<and> nestedrefs_dim v = 0"
    then have a: "addCatch toIR_inline c e s = Inr s1" by simp
    from a show "\<exists>cv l. catch_var s1 = Some cv \<and> irLocal s1 (vid v) = Some l
                \<and> l = CreateBitCast cv (LPtr (DtoType (vtype v)))
                \<and> strip_casts l = strip_casts cv
                \<and> var_allocas s1 = var_allocas s
                \<and> (catch_var s \<noteq> None \<longrightarrow> catch_var s1 = catch_var s \<and> allocas s1 = allocas s)"
    proof (cases rule: addCatch_inline_cases)
      case (1 s3 rest)
      from assignCatchVar_shared [OF 1(1)] h 1(2-4) show ?thesis
        by (auto simp: var_allocas_def)
    qed
  qed
  have 6: "addCatch toIR_inline c e s = Inr s1 \<and> var c = Some v \<and> nestedrefs_dim v \<noteq> 0
        \<and> irLocal s (vid v) = None \<and> (\<forall>t. catch_var s \<noteq> Some (VInst (nextval s) t))
        \<longrightarrow> (\<exists>cv r rest. catch_var s1 = Some cv
                \<and> irLocal s1 (vid v) = Some (VInst (nextval s) (LPtr (DtoType (vtype v))))
                \<and> VInst (nextval s) (LPtr (DtoType (vtype v))) \<noteq> cv
                \<and> var_allocas s1 = var_allocas s @ [(nextval s, DtoType (vtype v), ''var'')]
                \<and> (catch_var s \<noteq> None \<longrightarrow> catch_var s1 = catch_var s)
                \<and> code s1 = code s @
                    [(nextbb s, ILoad r cv),
                     (nextbb s, IStore (CreateBitCast (VInst r (pointee (typeOf cv)))
                          (DtoType (vtype v)))
                        (VInst (nextval s) (LPtr (DtoType (vtype v)))))] @ rest)"
  proof
    assume h: "addCatch toIR_inline c e s = Inr s1 \<and> var c = Some v \<and> nestedrefs_dim v \<noteq> 0
        \<and> irLocal s (vid v) = None \<and> (\<forall>t. catch_var s \<noteq> Some (VInst (nextval s) t))"
    then have a: "addCatch toIR_inline c e s = Inr s1" by simp
    from a show "\<exists>cv r rest. catch_var s1 = Some cv
                \<and> irLocal s1 (vid v) = Some (VInst (nextval s) (LPtr (DtoType (vtype v))))
                \<and> VInst (nextval s) (LPtr (DtoType (vtype v))) \<noteq> cv
                \<and> var_allocas s1 = var_allocas s @ [(nextval s, DtoType (vtype v), ''var'')]
                \<and> (catch_var s \<noteq> None \<longrightarrow> catch_var s1 = catch_var s)
                \<and> code s1 = code s @
                    [(nextbb s, ILoad r cv),
                     (nextbb s, IStore (CreateBitCast (VInst r (pointee (typeOf cv)))
                          (DtoType (vtype v)))
                        (VInst (nextval s) (LPtr (DtoType (vtype v)))))] @ rest"
    proof (cases rule: addCatch_inline_cases)
      case (1 s3 rest)
      let ?s = "s\<lparr>nextbb := Suc (nextbb s), scopebb := nextbb s, scopeend := e\<rparr>"
      from h have "var c = Some v" "nestedrefs_dim v \<noteq> 0" "irLocal ?s (vid v) = None"
        "\<forall>t. catch_var ?s \<noteq> Some (VInst (nextval ?s) t)" by simp_all
      from assignCatchVar_nested [OF 1(1) this] 1(2-5) show ?thesis
        by (auto simp: var_allocas_def)
    qed
  qed
  from 4 5 6 show ?thesis
    by (auto simp: getExceptionStorage_None getExceptionStorage_Some getExceptionStorage_twice
        landing_pad_store simp del: take_Suc_Cons)
qed


theorem exception_storage_slot_witness:
  "catch_var example_state = None \<and> catchvar_allocas example_state = []
   \<and> (\<exists>s1. addCatch toIR_inline (example_catch_var 1 3 0 20) 1 example_state = Inr s1
        \<and> catch_var s1 = Some (VInst 0 (LPtr (LPtr (LStruct 0))))
        \<and> irLocal s1 1 = Some (VCast (VInst 0 (LPtr (LPtr (LStruct 0)))) (LPtr (LPtr (LStruct 3))))
        \<and> var_allocas s1 = []
        \<and> (\<exists>s2. addCatch toIR_inline (example_catch_var 2 4 1 21) 1 s1 = Inr s2
              \<and> catch_var s2 = Some (VInst 0 (LPtr (LPtr (LStruct 0))))
              \<and> irLocal s2 2 = Some (VInst 2 (LPtr (LPtr (LStruct 4))))
              \<and> var_allocas s2 = [(2, LPtr (LStruct 4), ''var'')]
              \<and> length (catchvar_allocas s2) \<le> 1))"
proof -
  let ?c1 = "example_catch_var 1 3 0 20" and ?c2 = "example_catch_var 2 4 1 21"
  let ?v1 = "\<lparr>vid = 1, vtype = TClass 3, nestedrefs_dim = 0\<rparr>"
  let ?v2 = "\<lparr>vid = 2, vtype = TClass 4, nestedrefs_dim = 1\<rparr>"
  have e: "catch_var example_state = None" "catchvar_allocas example_state = []"
    "var_allocas example_state = []"
    by (simp_all add: example_state_def catchvar_allocas_def var_allocas_def)
  have "\<exists>s1. addCatch toIR_inline ?c1 1 example_state = Inr s1
      \<and> catch_var s1 = Some (VInst 0 (LPtr (LPtr (LStruct 0)))) \<and> nextval s1 = 2
      \<and> irLocal s1 2 = None
      \<and> (\<exists>s2. addCatch toIR_inline ?c2 1 s1 = Inr s2)"
    by (simp add: lp_eval example_catch_var_def storage_defs)
  then obtain s1 s2 where a1: "addCatch toIR_inline ?c1 1 example_state = Inr s1"
    and cv1: "catch_var s1 = Some (VInst 0 (LPtr (LPtr (LStruct 0))))" and nv: "nextval s1 = 2"
    and il: "irLocal s1 2 = None"
    and a2: "addCatch toIR_inline ?c2 1 s1 = Inr s2" by blast
  have r: "run toIR_inline [AddCatch ?c1 1, AddCatch ?c2 1] example_state = Inr s2"
    using a1 a2 by (simp add: bind_err_def)
  have v: "var ?c1 = Some ?v1" "nestedrefs_dim ?v1 = 0" "var ?c2 = Some ?v2" "nestedrefs_dim ?v2 \<noteq> 0"
    by (simp_all add: example_catch_var_def)
  from exception_storage_slot [of example_state "[AddCatch ?c1 1, AddCatch ?c2 1]" s2 ?c1 1 s1 ?v1]
    a1 v e r cv1
  have 1: "irLocal s1 1 = Some (VCast (VInst 0 (LPtr (LPtr (LStruct 0)))) (LPtr (LPtr (LStruct 3))))"
    "var_allocas s1 = []" "length (catchvar_allocas s2) \<le> 1"
    by (auto simp: CreateBitCast_def)
  from exception_storage_slot [of s1 "[]" s1 ?c2 1 s2 ?v2] a2 v cv1 nv il 1(2)
  have 2: "catch_var s2 = Some (VInst 0 (LPtr (LPtr (LStruct 0))))"
    "irLocal s2 2 = Some (VInst 2 (LPtr (LPtr (LStruct 4))))"
    "var_allocas s2 = [(2, LPtr (LStruct 4), ''var'')]"
    by auto
  from a1 a2 cv1 1 2 e show ?thesis by blast
qed

subsection \<open>Push followed by pop\<close>

lemma classinfos_returns:
  "list_all (wf_entry st) is \<Longrightarrow> \<exists>r. classinfos st is acc = Inr r"
proof (induction "is" arbitrary: acc)
  case Nil
  show ?case by (cases acc) simp
next
  case (Cons it rest)
  obtain hf hc args where acc: "acc = (hf, hc, args)" by (cases acc) auto
  from Cons.prems have w: "wf_entry st it" and r: "list_all (wf_entry st) rest" by simp_all
  show ?case
  proof (cases "finallyBody it")
    case (Some b)
    with Cons.IH [OF r, of "(True, hc, args)"] acc show ?thesis by simp
  next
    case None
    with w obtain c where c: "catchType it = Some c" "c \<in> st"
      by (auto simp: wf_entry_def split: option.splits)
    with None Cons.IH [OF r, of "(hf, True, VClassInfo c # args)"] acc show ?thesis by simp
  qed
qed

lemma walk_inline_returns:
  "list_all (wf_entry (irStruct s)) rits \<Longrightarrow> finally_count rits \<le> length (nInfos s) \<Longrightarrow>
     \<exists>s'. walk toIR_inline sel rits s = Inr s'"
proof (induction rits arbitrary: s)
  case Nil
  then show ?case by simp
next
  case (Cons rit rits)
  from Cons.prems have w: "wf_entry (irStruct s) rit" and r: "list_all (wf_entry (irStruct s)) rits"
    by simp_all
  show ?case
  proof (cases "finallyBody rit")
    case (Some body)
    with Cons.prems(2) obtain n ns where ns: "nInfos s = n # ns"
      by (cases "nInfos s") (auto simp: finally_count_def)
    let ?s1 = "toIR_inline body (s\<lparr>infos := resize n (infos s), nInfos := ns\<rparr>)"
    have "list_all (wf_entry (irStruct ?s1)) rits" "finally_count rits \<le> length (nInfos ?s1)"
      using r Cons.prems(2) Some ns by (simp_all add: toIR_inline_def emit_def finally_count_def)
    from Cons.IH [OF this] Some ns show ?thesis by simp
  next
    case None
    with w obtain c tgt where c: "catchType rit = Some c" "c \<in> irStruct s" "target rit = Some tgt"
      by (auto simp: wf_entry_def split: option.splits)
    let ?s1 = "emitCatchTest sel c tgt s"
    have "list_all (wf_entry (irStruct ?s1)) rits" "finally_count rits \<le> length (nInfos ?s1)"
      using r Cons.prems(2) None by (simp_all add: emitCatchTest_eq finally_count_def)
    from Cons.IH [OF this] None c show ?thesis by simp
  qed
qed

lemma push_inline_returns:
  assumes "list_all (wf_entry (irStruct s)) (infos s @ unpushed_infos s)"
    and "finally_count (infos s @ unpushed_infos s) \<le> Suc (length (nInfos s))"
  shows "\<exists>s'. push toIR_inline inBB s = Inr s'"
proof -
  let ?p = "pushed s"
  from classinfos_returns [of "irStruct s" "infos s @ unpushed_infos s" "(False, False, [])"] assms(1)
  obtain hasCatch args where
    sa: "selectorargs (irStruct ?p) (infos ?p) (VInst (nextval ?p) (LPtr (LInt 8))) = Inr (hasCatch, args)"
    by (auto simp: selectorargs_def bind_err_def pushed_def Let_def split: prod.splits)
  have "list_all (wf_entry (irStruct (before_walk ?p inBB hasCatch args))) (rev (infos ?p))"
    "finally_count (rev (infos ?p)) \<le> length (nInfos (before_walk ?p inBB hasCatch args))"
    using assms
    by (simp_all add: before_walk_def pushed_def finally_count_def rev_filter [symmetric]
        del: rev_append)
  from walk_inline_returns [OF this] obtain s5 where
    "walk toIR_inline (VInst (Suc (nextval ?p)) (LInt 32)) (rev (infos ?p))
       (before_walk ?p inBB hasCatch args) = Inr s5" by blast
  with sa have "constructLandingPad toIR_inline inBB ?p = Inr (after_walk ?p s5)"
    by (simp add: constructLandingPad_eq bind_err_def)
  then show ?thesis
    by (simp add: push_def pushed_def bind_err_def Let_def)
qed

text \<open>
  C5. From any state and for any lowering of statements that leaves the stack of landing
  pads as it found it: when \<open>push\<close> returns, the \<open>pop\<close> that follows it returns as well,
  the handler list is the list before the push (so it has its length), the checkpoint
  stack is the stack before the push, and \<open>get\<close> answers what it answered before the
  push. With straight-line lowering, \<open>push\<close> does return from every state whose entries,
  staged ones included, can be processed and which holds at most one finally entry more
  than it has checkpoints.
\<close>

theorem push_pop_roundtrip:
  "(keeps_padBBs toIR \<and> push toIR inBB s = Inr s1 \<longrightarrow>
      (\<exists>s2. pop s1 = Inr s2 \<and> length (infos s2) = length (infos s) \<and> infos s2 = infos s
         \<and> nInfos s2 = nInfos s \<and> get s2 = get s))
   \<and> (list_all (wf_entry (irStruct s)) (infos s @ unpushed_infos s)
        \<and> finally_count (infos s @ unpushed_infos s) \<le> Suc (length (nInfos s)) \<longrightarrow>
      (\<exists>s1 s2. push toIR_inline inBB s = Inr s1 \<and> pop s1 = Inr s2
         \<and> length (infos s2) = length (infos s) \<and> infos s2 = infos s
         \<and> nInfos s2 = nInfos s \<and> get s2 = get s))"
proof -
  have 1: "\<exists>s2. pop s1 = Inr s2 \<and> length (infos s2) = length (infos s) \<and> infos s2 = infos s
         \<and> nInfos s2 = nInfos s \<and> get s2 = get s"
    if "keeps_padBBs toIR" and "push toIR inBB s = Inr s1" for toIR s1
    using push_fields [OF that] by (simp add: pop_def get_def resize_def)
  have 2: "\<exists>s1 s2. push toIR_inline inBB s = Inr s1 \<and> pop s1 = Inr s2
         \<and> length (infos s2) = length (infos s) \<and> infos s2 = infos s
         \<and> nInfos s2 = nInfos s \<and> get s2 = get s"
    if "list_all (wf_entry (irStruct s)) (infos s @ unpushed_infos s)"
      and "finally_count (infos s @ unpushed_infos s) \<le> Suc (length (nInfos s))"
  proof -
    from push_inline_returns [OF that] obtain s1 where p: "push toIR_inline inBB s = Inr s1" ..
    from 1 [OF keeps_padBBs_inline p] p show ?thesis by blast
  qed
  from 1 2 show ?thesis by blast
qed

theorem push_pop_roundtrip_witness:
  "list_all (wf_entry (irStruct example_nested)) (infos (addFinally 7 example_nested)
       @ unpushed_infos (addFinally 7 example_nested))
   \<and> finally_count (infos (addFinally 7 example_nested) @ unpushed_infos (addFinally 7 example_nested))
       = 1
   \<and> (\<exists>s1 s2. push toIR_inline 4 (addFinally 7 example_nested) = Inr s1 \<and> pop s1 = Inr s2
        \<and> length (infos s2) = 1 \<and> get s2 = Some 2)"
proof -
  let ?s = "addFinally 7 example_nested"
  have e: "list_all (wf_entry (irStruct ?s)) (infos ?s @ unpushed_infos ?s)"
    "finally_count (infos ?s @ unpushed_infos ?s) = 1" "length (nInfos ?s) = 1"
    "length (infos ?s) = 1" "get ?s = Some 2" "irStruct ?s = irStruct example_nested"
    by (simp_all add: example_nested_def example_state_def addFinally_def wf_entry_def
        finally_count_def IRLandingPadInfo_Finally_def get_def)
  have p: "list_all (wf_entry (irStruct ?s)) (infos ?s @ unpushed_infos ?s)
        \<and> finally_count (infos ?s @ unpushed_infos ?s) \<le> Suc (length (nInfos ?s))"
    using e by simp
  from push_pop_roundtrip [of toIR_inline 4 ?s, THEN conjunct2, THEN mp, OF p]
  obtain s1 s2 where "push toIR_inline 4 ?s = Inr s1" "pop s1 = Inr s2"
    "length (infos s2) = length (infos ?s)" "get s2 = get ?s" by blast
  with e show ?thesis by auto
qed

subsection \<open>Where the generated dispatch departs from the handler clauses\<close>

lemma example_try_in_handler_eq:
  "handler_list example_try_in_handler
     = [\<lparr>target = Some 12, finallyBody = None, catchType = Some 5\<rparr>]
   \<and> block_instrs (code_of example_try_in_handler) 2
     = [ICall 5 eh_exception [],
        ICall 6 eh_selector [VInst 5 (LPtr (LInt 8)),
          VCast (VFunction ''_d_eh_personality'') (LPtr (LInt 8)), VClassInfo 5],
        ICall 7 eh_typeid_for [VCast (VClassInfo 5) (LPtr (LInt 8))],
        ICondBr (VICmpEQ (VInst 6 (LInt 32)) (VInst 7 (LInt 32))) 12 15]
   \<and> block_instrs (code_of example_try_in_handler) 15
     = [ICall 8 (RuntimeFn ''_d_eh_resume_unwind'') [VInst 5 (LPtr (LInt 8))], IUnreachable]
   \<and> block_instrs (code_of example_try_in_handler) 11 = [IStmt 21, IBr 1]"
  by (simp add: example_try_in_handler_def example_lowering_def toIR_try_finally_def
      handler_list_def code_of_def lp_eval)

text \<open>
  C1, on a try statement for which the code does not do what the claim says. The try has
  the catch clauses of classes 3, 4 and 5 in this order, and the handler of the third
  contains a try statement. The constructor of a catch entry lowers the handler before
  \<open>addCatch\<close> stages the entry, so the push of the inner try takes the entries of the
  first two clauses, staged by then, into its own frame, and its pop drops them. After the
  push of the outer try the handler list holds the third clause alone; entered with the
  selector of class 4, the landing pad tests class 5 only and ends in the unreachable after
  the resume call, while the handler of class 4 sits in block 11, which is never entered.
\<close>

theorem try_in_handler_drops_clauses:
  "handler_list example_try_in_handler
     = [\<lparr>target = Some 12, finallyBody = None, catchType = Some 5\<rparr>]
   \<and> block_instrs (code_of example_try_in_handler) 11 = [IStmt 21, IBr 1]
   \<and> dispatch 3 (code_of example_try_in_handler) (int 4) int 2
     = ([ICall 5 eh_exception [],
         ICall 6 eh_selector [VInst 5 (LPtr (LInt 8)),
           VCast (VFunction ''_d_eh_personality'') (LPtr (LInt 8)), VClassInfo 5],
         ICall 7 eh_typeid_for [VCast (VClassInfo 5) (LPtr (LInt 8))],
         ICondBr (VICmpEQ (VInst 6 (LInt 32)) (VInst 7 (LInt 32))) 12 15,
         ICall 8 (RuntimeFn ''_d_eh_resume_unwind'') [VInst 5 (LPtr (LInt 8))],
         IUnreachable],
        Unreachable)"
  using example_try_in_handler_eq
  by (simp add: dispatch_def after_def CreateBitCast_def)

lemma example_three_levels_eq:
  "infos example_three_levels
     = [\<lparr>target = Some 10, finallyBody = None, catchType = Some 3\<rparr>,
        IRLandingPadInfo_Finally 7,
        \<lparr>target = Some 13, finallyBody = None, catchType = Some 4\<rparr>]
   \<and> nInfos example_three_levels = [2, 1, 0] \<and> irStruct example_three_levels = {4, 3}"
  by (simp add: example_three_levels_def pushed_def lp_eval)

text \<open>
  C3, on a nesting for which the code does not do what the claim says. The exception is
  raised in a try with a catch that lies inside the body of the try-finally, so the landing
  pad is built over the list of the outer catch, the finally and the inner catch, with the
  checkpoints 0, 1 and 2. For every lowering of statements, the walk tests the inner catch
  and then lowers the body of the finally in a state whose live list has been resized to
  the top checkpoint 2, that of the inner try: the finally itself is still in the live
  list, and its own checkpoint 1 is still on the stack. Having left the scope of the
  finally would mean the live list of the outer catch alone and the checkpoint 0.
\<close>

theorem finally_lowered_while_still_live:
  "infos example_three_levels
     = [\<lparr>target = Some 10, finallyBody = None, catchType = Some 3\<rparr>,
        IRLandingPadInfo_Finally 7,
        \<lparr>target = Some 13, finallyBody = None, catchType = Some 4\<rparr>]
   \<and> nInfos example_three_levels = [2, 1, 0]
   \<and> walk toIR eh_sel (rev (infos example_three_levels))
         (before_walk example_three_levels 6 hasCatch args)
     = walk toIR eh_sel [\<lparr>target = Some 10, finallyBody = None, catchType = Some 3\<rparr>]
         (toIR 7
           ((emitCatchTest eh_sel 4 13 (before_walk example_three_levels 6 hasCatch args))
              \<lparr>infos := [\<lparr>target = Some 10, finallyBody = None, catchType = Some 3\<rparr>,
                         IRLandingPadInfo_Finally 7],
               nInfos := [1, 0]\<rparr>))"
  using example_three_levels_eq
  by (simp add: before_walk_def emitCatchTest_eq IRLandingPadInfo_Finally_def resize_def)

end
